theory Spec2Isabelle
  imports Complex_Main "HOL-Library.Log_Nat"
begin

section \<open>Python strings\<close>

text \<open>
  A Python \<open>str\<close> is a sequence of Unicode code points, and \<open>len\<close>, slicing,
  \<open>startswith\<close> and \<open>strip\<close> all count code points. A string is therefore a list of
  code points (natural numbers), not a list of bytes. \<open>str_of\<close> reads an ASCII literal.
\<close>

type_synonym pystr = "nat list"

definition str_of :: "string \<Rightarrow> pystr" where
  "str_of s = map of_char s"

text \<open>
  \<open>str.isspace\<close> for one code point, which is also the set \<open>str.strip()\<close> removes:
  TAB..CR, FS..US, SPACE, NEL, NBSP, OGHAM SPACE MARK, EN QUAD..HAIR SPACE, LINE and
  PARAGRAPH SEPARATOR, NARROW NBSP, MEDIUM MATHEMATICAL SPACE, IDEOGRAPHIC SPACE.
\<close>

definition py_isspace :: "nat \<Rightarrow> bool" where
  "py_isspace c \<longleftrightarrow>
     (9 \<le> c \<and> c \<le> 13) \<or> (28 \<le> c \<and> c \<le> 32) \<or> c = 133 \<or> c = 160 \<or> c = 5760 \<or>
     (8192 \<le> c \<and> c \<le> 8202) \<or> c = 8232 \<or> c = 8233 \<or> c = 8239 \<or> c = 8287 \<or> c = 12288"

definition py_strip :: "pystr \<Rightarrow> pystr" where
  "py_strip s = rev (dropWhile py_isspace (rev (dropWhile py_isspace s)))"

text \<open>
  \<open>str.lower()\<close>, code point by code point. The model is exact on every code point whose
  lowercase form contains a code point below 128: the ASCII capitals, U+0130 (which
  lowers to \<open>i\<close> followed by U+0307) and U+212A (KELVIN SIGN, which lowers to \<open>k\<close>). Every
  other code point is left as it is; Python maps those among code points above 127, which
  no ASCII needle can match before or after the mapping.
\<close>

definition py_lower_cp :: "nat \<Rightarrow> pystr" where
  "py_lower_cp c =
     (if 65 \<le> c \<and> c \<le> 90 then [c + 32]
      else if c = 304 then [105, 775]
      else if c = 8490 then [107]
      else [c])"

definition py_lower :: "pystr \<Rightarrow> pystr" where
  "py_lower s = concat (map py_lower_cp s)"

text \<open>\<open>s.startswith(p)\<close>.\<close>

definition startswith :: "pystr \<Rightarrow> pystr \<Rightarrow> bool" where
  "startswith s p \<longleftrightarrow> take (length p) s = p"

text \<open>\<open>needle in hay\<close> for strings: \<open>needle\<close> occurs as a contiguous run of \<open>hay\<close>.\<close>

fun py_in :: "pystr \<Rightarrow> pystr \<Rightarrow> bool" where
  "py_in needle [] = (needle = [])"
| "py_in needle (h # hs) = (startswith (h # hs) needle \<or> py_in needle hs)"

text \<open>
  \<open>s.split('\n')\<close>: the pieces between line feeds (code point 10); the result is never
  empty, and a trailing line feed gives a last empty piece. \<open>cur\<close> holds the current
  piece in reverse.
\<close>

fun split_from :: "pystr \<Rightarrow> pystr \<Rightarrow> pystr list" where
  "split_from cur [] = [rev cur]"
| "split_from cur (c # cs) =
     (if c = 10 then rev cur # split_from [] cs else split_from (c # cur) cs)"

definition py_split_lines :: "pystr \<Rightarrow> pystr list" where
  "py_split_lines s = split_from [] s"

text \<open>\<open>str(n)\<close> for an integer: its decimal digits, with a minus sign when it is negative.\<close>

function digits :: "nat \<Rightarrow> pystr" where
  "digits n = (if n < 10 then [48 + n] else digits (n div 10) @ [48 + n mod 10])"
  by pat_completeness auto
termination
  by (relation "measure id") auto

declare digits.simps [simp del]

definition py_str_int :: "int \<Rightarrow> pystr" where
  "py_str_int i = (if i < 0 then 45 # digits (nat (- i)) else digits (nat i))"

text \<open>\<open>sep.join(xs)\<close>.\<close>

fun py_join :: "pystr \<Rightarrow> pystr list \<Rightarrow> pystr" where
  "py_join sep [] = []"
| "py_join sep [x] = x"
| "py_join sep (x # y # ys) = x @ sep @ py_join sep (y # ys)"

section \<open>Python floats\<close>

text \<open>
  A Python float is an IEEE 754 double. A finite double is modelled by the rational number
  it denotes, and every operation on doubles by the exact operation followed by rounding
  to the nearest double, ties to the even mantissa. Infinities and NaN have no model;
  they do not arise in the program (lemma \<open>score_computation_finite\<close>).

  \<open>floor_log2 x\<close> is the exponent \<open>e\<close> with \<open>2^e \<le> x < 2^(e+1)\<close>, for \<open>x > 0\<close>.
\<close>

definition floor_log2 :: "rat \<Rightarrow> int" where
  "floor_log2 x =
     (case quotient_of x of
        (p, q) \<Rightarrow> if 2 powi (bitlen p - bitlen q) \<le> x then bitlen p - bitlen q
                  else bitlen p - bitlen q - 1)"

text \<open>Rounding to the nearest integer, ties to the even one.\<close>

definition round_half_even :: "rat \<Rightarrow> int" where
  "round_half_even x =
     (if x - of_int \<lfloor>x\<rfloor> < 1 / 2 then \<lfloor>x\<rfloor>
      else if 1 / 2 < x - of_int \<lfloor>x\<rfloor> then \<lfloor>x\<rfloor> + 1
      else if even \<lfloor>x\<rfloor> then \<lfloor>x\<rfloor> else \<lfloor>x\<rfloor> + 1)"

text \<open>
  The spacing of the doubles around \<open>x > 0\<close> is \<open>2^t\<close> with \<open>t = max e (-1022) - 52\<close>, where
  \<open>e\<close> is the exponent of \<open>x\<close>: 53 bits of mantissa for a normal number, the fixed spacing
  \<open>2^(-1074)\<close> for a subnormal one.
\<close>

definition spacing_exponent :: "rat \<Rightarrow> int" where
  "spacing_exponent x = max (floor_log2 x) (- 1022) - 52"

definition round_positive :: "rat \<Rightarrow> rat" where
  "round_positive x =
     of_int (round_half_even (x / 2 powi spacing_exponent x)) * 2 powi spacing_exponent x"

definition round_double :: "rat \<Rightarrow> rat" where
  "round_double x =
     (if x = 0 then 0 else if 0 < x then round_positive x else - round_positive (- x))"

text \<open>
  \<open>float(i)\<close>, as Python converts an \<open>int\<close> operand of a float operation; \<open>None\<close> is the
  \<open>OverflowError\<close> it raises when the rounded value is beyond the largest double.
\<close>

definition float_of_int :: "int \<Rightarrow> rat option" where
  "float_of_int i =
     (if 2 ^ 1024 \<le> \<bar>round_double (of_int i)\<bar> then None else Some (round_double (of_int i)))"

definition float_mul :: "rat \<Rightarrow> rat \<Rightarrow> rat" where
  "float_mul x y = round_double (x * y)"

definition float_sub :: "rat \<Rightarrow> rat \<Rightarrow> rat" where
  "float_sub x y = round_double (x - y)"

text \<open>The literal \<open>0.1\<close>: the double nearest to one tenth.\<close>

definition float_0_1 :: rat where
  "float_0_1 = round_double (1 / 10)"

section \<open>Data model\<close>

datatype SearchIntent =
  INITIAL_EXPLORATION | DEEP_DIVE | FACT_CHECKING | RELATED_TOPICS | SYNTHESIS

text \<open>The \<open>value\<close> of a member of the enumeration.\<close>

fun intent_value :: "SearchIntent \<Rightarrow> pystr" where
  "intent_value INITIAL_EXPLORATION = str_of ''initial_exploration''"
| "intent_value DEEP_DIVE = str_of ''deep_dive''"
| "intent_value FACT_CHECKING = str_of ''fact_checking''"
| "intent_value RELATED_TOPICS = str_of ''related_topics''"
| "intent_value SYNTHESIS = str_of ''synthesis''"

text \<open>
  \<open>SearchResult\<close>. The \<open>relevance_score\<close> is a double (see above). The \<open>timestamp\<close> field
  (wall-clock time of creation) is read by no operation of the program and is left out.
\<close>

record SearchResult =
  title :: pystr
  url :: pystr
  content :: pystr
  relevance_score :: rat
  search_intent :: SearchIntent

text \<open>\<open>ResearchContext\<close>: the state of one research run.\<close>

record ResearchContext =
  query :: pystr
  search_history :: "SearchResult list"
  key_findings :: "pystr list"
  unanswered_questions :: "pystr list"
  search_iterations :: int

text \<open>
  \<open>SearchPlan\<close>. Its \<open>query\<close> field is named \<open>plan_query\<close> here, since
  \<open>ResearchContext\<close> has a field of the same name.
\<close>

record SearchPlan =
  intent :: SearchIntent
  plan_query :: pystr
  reasoning :: pystr

text \<open>\<open>ResearchContext(query=question)\<close>: every other field takes its default.\<close>

definition new_context :: "pystr \<Rightarrow> ResearchContext" where
  "new_context question =
     \<lparr>query = question, search_history = [], key_findings = [],
      unanswered_questions = [], search_iterations = 0\<rparr>"

section \<open>Exceptions, standard output and the external services\<close>

text \<open>
  An exception is its class and the text \<open>str(e)\<close> that the program prints. Every
  exception the handlers of the program can meet is an \<open>Exception\<close>; the handlers are all
  \<open>except Exception\<close>, so the class never decides what a handler does. What those handlers
  do not catch (\<open>KeyboardInterrupt\<close>, \<open>SystemExit\<close>) ends the process and is not modelled.
\<close>

datatype error_kind =
  NetworkError | AuthError | MalformedResponse
  | TypeError | ValidationError | OverflowError | UnicodeEncodeError
  | LLMError | ToolCallError

datatype error = Raised error_kind pystr

fun error_text :: "error \<Rightarrow> pystr" where
  "error_text (Raised k msg) = msg"

text \<open>
  The exceptions Python itself raises in the program. Their texts are ASCII (the text
  of a \<open>UnicodeEncodeError\<close> names the character by its escape); the model keeps a short
  ASCII text for each, since the program does nothing with them but print them.
\<close>

definition type_error :: error where
  "type_error = Raised TypeError (str_of ''NoneType object is not subscriptable'')"

definition validation_error :: error where
  "validation_error = Raised ValidationError (str_of ''1 validation error for SearchResult'')"

definition overflow_error :: error where
  "overflow_error = Raised OverflowError (str_of ''int too large to convert to float'')"

definition encode_error :: error where
  "encode_error = Raised UnicodeEncodeError (str_of ''codec can not encode character'')"

text \<open>
  Standard output is a text stream with an encoding and an error handler. The first line
  the program prints starts with U+1F52C. A codec of Python that can encode that code
  point (UTF-8, UTF-16, UTF-32, UTF-7, GB18030, the escape codecs) can encode every code
  point that is not a surrogate (U+D800 to U+DFFF); which surrogates the stream accepts
  depends on the codec and on the error handler, and is the parameter of \<open>Complete\<close>
  (none of them for UTF-8 with the handler \<open>strict\<close>, the default). A stream that cannot
  encode U+1F52C is \<open>Partial\<close>, with the code points it accepts as parameter. The stream
  is taken to stay open.
\<close>

datatype stdout_encoding = Complete "nat \<Rightarrow> bool" | Partial "nat \<Rightarrow> bool"

definition is_surrogate :: "nat \<Rightarrow> bool" where
  "is_surrogate c \<longleftrightarrow> 55296 \<le> c \<and> c \<le> 57343"

fun stdout_encodes :: "stdout_encoding \<Rightarrow> nat \<Rightarrow> bool" where
  "stdout_encodes (Complete h) c = (if is_surrogate c then h c else True)"
| "stdout_encodes (Partial f) c = (if c = 128300 then False else f c)"

text \<open>
  One item of the provider's answer. An attribute is \<open>None\<close> when the provider sent no
  value for it.
\<close>

record raw_result =
  raw_title :: "pystr option"
  raw_url :: "pystr option"
  raw_text :: "pystr option"

text \<open>
  A tool call of the executor's answer. The only tool declared to the model is
  \<open>get_search_results\<close>, with the arguments the model chose; \<open>BrokenTool\<close> is a tool
  object whose \<open>call()\<close> raises before it reaches \<open>get_search_results\<close>.
\<close>

datatype tool =
  GetSearchResults pystr int bool
  | BrokenTool error

text \<open>
  The answer of \<open>execute_search\<close>: \<open>tools\<close> is \<open>None\<close> or a list of tool calls,
  \<open>content\<close> (here \<open>narrative\<close>) is \<open>None\<close> or the text of the answer.
\<close>

record exec_response =
  tools :: "tool list option"
  narrative :: "pystr option"

text \<open>
  The search provider and the language model are outside the program. Each is a
  function of its arguments and of the state of the outside world \<open>'w\<close>, which it may
  change; it answers with a value or raises. \<open>exa_api_key\<close> is what
  \<open>os.getenv("EXA_API_KEY")\<close> returns; \<open>exa_search_and_contents\<close> stands for building the
  client with that key and calling \<open>search_and_contents\<close> on it. The bodies of
  \<open>plan_searches\<close>, \<open>execute_search\<close> and \<open>synthesize_research\<close> fill in a prompt from their
  arguments; what the model answers to it is not determined by the program, so the model
  call of each of the three is a parameter (\<open>llm_plan_searches\<close>, \<open>llm_execute_search\<close>,
  \<open>llm_synthesize_research\<close>), given the arguments of the call. \<open>stdout\<close> is the
  encoding of standard output.
\<close>

record 'w env =
  exa_api_key :: "pystr option"
  exa_search_and_contents ::
    "pystr option \<Rightarrow> pystr \<Rightarrow> int \<Rightarrow> bool \<Rightarrow> 'w \<Rightarrow> (error + raw_result list) \<times> 'w"
  llm_plan_searches :: "ResearchContext \<Rightarrow> 'w \<Rightarrow> (error + SearchPlan list) \<times> 'w"
  llm_execute_search ::
    "SearchPlan \<Rightarrow> ResearchContext \<Rightarrow> 'w \<Rightarrow> (error + exec_response) \<times> 'w"
  llm_synthesize_research :: "ResearchContext \<Rightarrow> 'w \<Rightarrow> (error + pystr) \<times> 'w"
  stdout :: stdout_encoding

section \<open>print\<close>

text \<open>
  \<open>print(s)\<close> writes \<open>s\<close> and a line feed. It raises a \<open>UnicodeEncodeError\<close> when the stream
  cannot encode one of the code points, and nothing else of it matters to the program:
  the text written is not recorded.
\<close>

definition printable :: "'w env \<Rightarrow> pystr \<Rightarrow> bool" where
  "printable E s \<longleftrightarrow> list_all (stdout_encodes (stdout E)) s"

definition py_print :: "'w env \<Rightarrow> pystr \<Rightarrow> error option" where
  "py_print E s = (if printable E (s @ [10]) then None else Some encode_error)"

text \<open>Consecutive \<open>print\<close> statements: the first that raises ends the sequence.\<close>

fun print_all :: "'w env \<Rightarrow> pystr list \<Rightarrow> error option" where
  "print_all E [] = None"
| "print_all E (l # ls) =
     (case py_print E l of Some e \<Rightarrow> Some e | None \<Rightarrow> print_all E ls)"

text \<open>The texts the program prints, each named by the line of its \<open>print\<close> statement.\<close>

definition line_78 :: "error \<Rightarrow> pystr" where
  "line_78 e = str_of ''Error in search: '' @ error_text e"

definition line_245 :: pystr where
  "line_245 = str_of ''DEBUG synthesize_research:''"

definition line_246 :: "ResearchContext \<Rightarrow> pystr" where
  "line_246 c = str_of ''  query: '' @ query c"

definition line_247 :: "ResearchContext \<Rightarrow> pystr" where
  "line_247 c = str_of ''  total_searches: '' @ py_str_int (search_iterations c)"

definition line_248 :: "ResearchContext \<Rightarrow> pystr" where
  "line_248 c = str_of ''  key_findings: '' @ py_join [10] (key_findings c)"

definition line_249 :: "ResearchContext \<Rightarrow> pystr" where
  "line_249 c =
     str_of ''  search_history length: '' @ py_str_int (int (length (search_history c)))"

text \<open>\<open>all_results_text\<close> of \<open>synthesize_research\<close> (lines 235-238).\<close>

definition result_text :: "SearchResult \<Rightarrow> pystr" where
  "result_text r =
     [91] @ intent_value (search_intent r) @ str_of ''] Source: '' @ title r @ str_of '' (''
     @ url r @ [41, 10] @ take 500 (content r) @ str_of ''...''"

definition all_results_text :: "ResearchContext \<Rightarrow> pystr" where
  "all_results_text c = py_join [10, 10] (map result_text (search_history c))"

definition line_250 :: "ResearchContext \<Rightarrow> pystr" where
  "line_250 c =
     str_of ''  all_results_text length: '' @ py_str_int (int (length (all_results_text c)))"

definition line_269 :: "pystr \<Rightarrow> pystr" where
  "line_269 question = [128300, 32] @ str_of ''Starting Deep Research: '' @ question"

definition line_270 :: pystr where
  "line_270 = replicate 80 61"

definition line_274 :: "ResearchContext \<Rightarrow> pystr" where
  "line_274 c =
     [10, 128202, 32] @ str_of ''Research Iteration '' @ py_str_int (search_iterations c)"

definition line_279 :: "SearchPlan list \<Rightarrow> pystr" where
  "line_279 search_plans =
     [128203, 32] @ str_of ''Generated '' @ py_str_int (int (length search_plans))
     @ str_of '' search plans''"

definition line_283 :: "nat \<Rightarrow> SearchPlan \<Rightarrow> pystr" where
  "line_283 i plan =
     [10, 128269, 32] @ str_of ''Executing search '' @ py_str_int (int i + 1) @ str_of '': ''
     @ intent_value (intent plan)"

definition line_284 :: "SearchPlan \<Rightarrow> pystr" where
  "line_284 plan = str_of ''   Query: '' @ plan_query plan"

definition line_285 :: "SearchPlan \<Rightarrow> pystr" where
  "line_285 plan = str_of ''   Reasoning: '' @ reasoning plan"

definition line_299 :: "SearchResult list \<Rightarrow> pystr" where
  "line_299 results =
     str_of ''   '' @ [9989, 32] @ str_of ''Found '' @ py_str_int (int (length results))
     @ str_of '' results''"

definition line_301 :: "error \<Rightarrow> pystr" where
  "line_301 e = str_of ''   '' @ [10060, 32] @ str_of ''Search error: '' @ error_text e"

definition line_313 :: "error \<Rightarrow> pystr" where
  "line_313 e = [10060, 32] @ str_of ''Planning error: '' @ error_text e"

definition line_318 :: pystr where
  "line_318 = [10, 9989, 32] @ str_of ''Sufficient information gathered. Moving to synthesis.''"

definition line_322 :: pystr where
  "line_322 = [10, 128221, 32] @ str_of ''Synthesizing research findings...''"

definition line_325 :: pystr where
  "line_325 = 10 # replicate 80 61"

definition line_326 :: pystr where
  "line_326 = [128202, 32] @ str_of ''Research Complete!''"

definition line_327 :: "ResearchContext \<Rightarrow> pystr" where
  "line_327 c = str_of ''   Total Iterations: '' @ py_str_int (search_iterations c)"

definition line_328 :: "ResearchContext \<Rightarrow> pystr" where
  "line_328 c = str_of ''   Total Searches: '' @ py_str_int (int (length (search_history c)))"

definition line_329 :: "ResearchContext \<Rightarrow> pystr" where
  "line_329 c = str_of ''   Key Findings: '' @ py_str_int (int (length (key_findings c)))"

section \<open>get_search_results\<close>

text \<open>
  \<open>max(0.1, 1.0 - i * 0.1)\<close> as Python evaluates it for the position \<open>i\<close> (lines 66 and
  72): \<open>i\<close> is converted to a double, multiplied by the double \<open>0.1\<close>, the product is
  subtracted from \<open>1.0\<close>, and \<open>max\<close> picks the larger of \<open>0.1\<close> and the difference.
  \<open>None\<close> is the \<open>OverflowError\<close> of the conversion.
\<close>

definition position_score :: "nat \<Rightarrow> rat option" where
  "position_score i =
     (case float_of_int (int i) of
        None \<Rightarrow> None
      | Some fi \<Rightarrow> Some (max float_0_1 (float_sub 1 (float_mul fi float_0_1))))"

text \<open>
  The body of the \<open>for\<close> loop of \<open>get_search_results\<close> for the item at position \<open>i\<close>
  (lines 64-74). The relevance is computed first. Python then evaluates the arguments of
  the constructor in order, so \<open>result.text[:2000]\<close> raises a \<open>TypeError\<close> on \<open>None\<close> before
  the constructor validates \<open>title\<close> and \<open>url\<close> as strings and the score as a number
  between 0 and 1.
\<close>

definition make_result :: "nat \<Rightarrow> raw_result \<Rightarrow> error + SearchResult" where
  "make_result i r =
     (case position_score i of
        None \<Rightarrow> Inl overflow_error
      | Some score \<Rightarrow>
          (case raw_text r of
             None \<Rightarrow> Inl type_error
           | Some t \<Rightarrow>
               (case (raw_title r, raw_url r) of
                  (Some ti, Some u) \<Rightarrow>
                    if 0 \<le> score \<and> score \<le> 1 then
                      Inr \<lparr>title = ti, url = u, content = take 2000 t,
                           relevance_score = score,
                           search_intent = INITIAL_EXPLORATION\<rparr>
                    else Inl validation_error
                | _ \<Rightarrow> Inl validation_error)))"

text \<open>\<open>for i, result in enumerate(results.results)\<close>, from position \<open>i\<close> on.\<close>

fun structure_results ::
  "nat \<Rightarrow> raw_result list \<Rightarrow> SearchResult list \<Rightarrow> error + SearchResult list" where
  "structure_results i [] structured_results = Inr structured_results"
| "structure_results i (r # rs) structured_results =
     (case make_result i r of
        Inl e \<Rightarrow> Inl e
      | Inr sr \<Rightarrow> structure_results (Suc i) rs (structured_results @ [sr]))"

text \<open>The \<open>try\<close> block of \<open>get_search_results\<close> (lines 54-76).\<close>

definition get_search_results_try ::
  "'w env \<Rightarrow> pystr \<Rightarrow> int \<Rightarrow> bool \<Rightarrow> 'w \<Rightarrow> (error + SearchResult list) \<times> 'w" where
  "get_search_results_try E q num_results use_autoprompt w =
     (case exa_search_and_contents E (exa_api_key E) q num_results use_autoprompt w of
        (Inl e, w') \<Rightarrow> (Inl e, w')
      | (Inr raws, w') \<Rightarrow> (structure_results 0 raws [], w'))"

text \<open>
  \<open>get_search_results\<close>: the \<open>try\<close> block under its \<open>except Exception\<close> handler (lines
  77-79), which prints the exception and returns the empty list. An exception of that
  \<open>print\<close> leaves the function.
\<close>

definition get_search_results ::
  "'w env \<Rightarrow> pystr \<Rightarrow> int \<Rightarrow> bool \<Rightarrow> 'w \<Rightarrow> (error + SearchResult list) \<times> 'w" where
  "get_search_results E q num_results use_autoprompt w =
     (case get_search_results_try E q num_results use_autoprompt w of
        (Inl e, w') \<Rightarrow>
          (case py_print E (line_78 e) of
             Some pe \<Rightarrow> (Inl pe, w')
           | None \<Rightarrow> (Inr [], w'))
      | (Inr rs, w') \<Rightarrow> (Inr rs, w'))"

section \<open>The research loop\<close>

text \<open>
  The trace lists, in program order, the calls the run makes to the outside (each with
  its argument as it is at the call) and the evaluations of the stop test of the loop
  (with the context it is evaluated on). It is an observation of the run: nothing in the
  program reads it.
\<close>

datatype event =
  PlanCall ResearchContext
  | ExecuteCall SearchPlan ResearchContext
  | ToolCall tool
  | StopTest ResearchContext
  | SynthesizeCall ResearchContext

record 'w state =
  ctx :: ResearchContext
  world :: 'w
  trace :: "event list"

text \<open>
  In what follows, a result \<open>(Some e, s)\<close> is an exception \<open>e\<close> that leaves the piece of
  program in the state \<open>s\<close> reached when it is raised; \<open>(None, s)\<close> is its normal end.
\<close>

text \<open>
  Lines 296-298:
  \<open>for r in results: r.search_intent = plan.intent; search_history.append(r)\<close>.
\<close>

fun add_results :: "SearchIntent \<Rightarrow> SearchResult list \<Rightarrow> ResearchContext \<Rightarrow> ResearchContext" where
  "add_results p_intent [] c = c"
| "add_results p_intent (r # rs) c =
     add_results p_intent rs (c\<lparr>search_history := search_history c @ [r\<lparr>search_intent := p_intent\<rparr>]\<rparr>)"

text \<open>\<open>tool.call()\<close> (line 294).\<close>

definition tool_call :: "'w env \<Rightarrow> tool \<Rightarrow> 'w \<Rightarrow> (error + SearchResult list) \<times> 'w" where
  "tool_call E t w =
     (case t of
        GetSearchResults q num_results use_autoprompt \<Rightarrow>
          get_search_results E q num_results use_autoprompt w
      | BrokenTool e \<Rightarrow> (Inl e, w))"

text \<open>
  The handler of the tool call (lines 300-301): it prints the exception. An exception
  of that \<open>print\<close> leaves the handler.
\<close>

definition search_error_handler :: "'w env \<Rightarrow> error \<Rightarrow> 'w state \<Rightarrow> error option \<times> 'w state" where
  "search_error_handler E e s = (py_print E (line_301 e), s)"

text \<open>
  The body of \<open>for tool in search_result.tools\<close> (lines 293-301): the call, the appends
  and the \<open>print\<close> of line 299, all under the handler.
\<close>

definition run_tool ::
  "'w env \<Rightarrow> SearchIntent \<Rightarrow> tool \<Rightarrow> 'w state \<Rightarrow> error option \<times> 'w state" where
  "run_tool E p_intent t s =
     (case tool_call E t (world s) of
        (Inl e, w') \<Rightarrow>
          search_error_handler E e (s\<lparr>world := w', trace := trace s @ [ToolCall t]\<rparr>)
      | (Inr results, w') \<Rightarrow>
          (case py_print E (line_299 results) of
             Some pe \<Rightarrow>
               search_error_handler E pe
                 (s\<lparr>ctx := add_results p_intent results (ctx s), world := w',
                    trace := trace s @ [ToolCall t]\<rparr>)
           | None \<Rightarrow>
               (None, s\<lparr>ctx := add_results p_intent results (ctx s), world := w',
                        trace := trace s @ [ToolCall t]\<rparr>)))"

fun run_tools ::
  "'w env \<Rightarrow> SearchIntent \<Rightarrow> tool list \<Rightarrow> 'w state \<Rightarrow> error option \<times> 'w state" where
  "run_tools E p_intent [] s = (None, s)"
| "run_tools E p_intent (t # ts) s =
     (case run_tool E p_intent t s of
        (Some e, s') \<Rightarrow> (Some e, s')
      | (None, s') \<Rightarrow> run_tools E p_intent ts s')"

text \<open>
  The marker of the lines the program skips: the single code point U+1F50D
  (the magnifying glass the program prints before each search).
\<close>

definition marker :: pystr where
  "marker = [128269]"

text \<open>
  \<open>for line in analysis_lines\<close> (lines 307-310): a line is kept when \<open>line.strip()\<close> is not
  empty, \<open>line\<close> itself does not start with the marker, and \<open>line.lower()\<close> contains
  \<open>finding\<close> or \<open>discovered\<close>; what is appended is \<open>line.strip()\<close>.
\<close>

fun scan_lines :: "pystr list \<Rightarrow> pystr list \<Rightarrow> pystr list" where
  "scan_lines [] kf = kf"
| "scan_lines (line # analysis_lines) kf =
     scan_lines analysis_lines
       (if py_strip line \<noteq> [] \<and> \<not> startswith line marker then
          (if py_in (str_of ''finding'') (py_lower line)
              \<or> py_in (str_of ''discovered'') (py_lower line)
           then kf @ [py_strip line] else kf)
        else kf)"

text \<open>
  \<open>if search_result.content:\<close> (line 304) and the scan under it. \<open>None\<close> and the
  empty string are both false.
\<close>

definition extract_findings :: "pystr option \<Rightarrow> pystr list \<Rightarrow> pystr list" where
  "extract_findings c kf =
     (case c of
        None \<Rightarrow> kf
      | Some text \<Rightarrow> if text = [] then kf else scan_lines (py_split_lines text) kf)"

text \<open>
  The extraction of findings from the answer of \<open>execute_search\<close> (lines 304-310), which
  updates \<open>key_findings\<close> and nothing else. No statement of it can raise.
\<close>

definition extract_key_findings :: "exec_response \<Rightarrow> 'w state \<Rightarrow> 'w state" where
  "extract_key_findings resp s =
     s\<lparr>ctx := (ctx s)\<lparr>key_findings :=
            extract_findings (narrative resp) (key_findings (ctx s))\<rparr>\<rparr>"

text \<open>
  What the loop does with the answer of \<open>execute_search\<close> (lines 291-310):
  \<open>if search_result.tools:\<close> (\<open>None\<close> and the empty list are both false) runs the tool
  calls, then the findings are extracted.
\<close>

definition process_response ::
  "'w env \<Rightarrow> SearchPlan \<Rightarrow> exec_response \<Rightarrow> 'w state \<Rightarrow> error option \<times> 'w state" where
  "process_response E plan resp s =
     (case (case tools resp of
              None \<Rightarrow> (None, s)
            | Some ts \<Rightarrow> if ts = [] then (None, s) else run_tools E (intent plan) ts s) of
        (Some e, s1) \<Rightarrow> (Some e, s1)
      | (None, s1) \<Rightarrow> (None, extract_key_findings resp s1))"

text \<open>
  The execution of one plan (lines 287-310): the call of \<open>execute_search\<close> at line 288
  and what the loop does with its answer.
\<close>

definition execute_plan :: "'w env \<Rightarrow> SearchPlan \<Rightarrow> 'w state \<Rightarrow> error option \<times> 'w state" where
  "execute_plan E plan s =
     (case llm_execute_search E plan (ctx s) (world s) of
        (Inl e, w') \<Rightarrow>
          (Some e, s\<lparr>world := w', trace := trace s @ [ExecuteCall plan (ctx s)]\<rparr>)
      | (Inr resp, w') \<Rightarrow>
          process_response E plan resp
            (s\<lparr>world := w', trace := trace s @ [ExecuteCall plan (ctx s)]\<rparr>))"

text \<open>
  \<open>for i, plan in enumerate(search_plans[:2])\<close> from the index \<open>i\<close> on (lines 282-310):
  the three \<open>print\<close> statements of lines 283-285, then the execution of the plan.
\<close>

fun execute_plans ::
  "'w env \<Rightarrow> nat \<Rightarrow> SearchPlan list \<Rightarrow> 'w state \<Rightarrow> error option \<times> 'w state" where
  "execute_plans E i [] s = (None, s)"
| "execute_plans E i (plan # plans) s =
     (case print_all E [line_283 i plan, line_284 plan, line_285 plan] of
        Some e \<Rightarrow> (Some e, s)
      | None \<Rightarrow>
          (case execute_plan E plan s of
             (Some e, s') \<Rightarrow> (Some e, s')
           | (None, s') \<Rightarrow> execute_plans E (Suc i) plans s'))"

text \<open>
  The \<open>try\<close> block of the loop (lines 277-310): the planning call, the \<open>print\<close> of line
  279, then the first two plans.
\<close>

definition plan_and_execute :: "'w env \<Rightarrow> 'w state \<Rightarrow> error option \<times> 'w state" where
  "plan_and_execute E s =
     (case llm_plan_searches E (ctx s) (world s) of
        (Inl e, w') \<Rightarrow> (Some e, s\<lparr>world := w', trace := trace s @ [PlanCall (ctx s)]\<rparr>)
      | (Inr search_plans, w') \<Rightarrow>
          (case py_print E (line_279 search_plans) of
             Some e \<Rightarrow> (Some e, s\<lparr>world := w', trace := trace s @ [PlanCall (ctx s)]\<rparr>)
           | None \<Rightarrow>
               execute_plans E 0 (take 2 search_plans)
                 (s\<lparr>world := w', trace := trace s @ [PlanCall (ctx s)]\<rparr>)))"

text \<open>\<open>len(key_findings) >= 5 and search_iterations >= 3\<close> (line 317).\<close>

definition sufficient :: "ResearchContext \<Rightarrow> bool" where
  "sufficient c \<longleftrightarrow> 5 \<le> length (key_findings c) \<and> 3 \<le> search_iterations c"

text \<open>
  How one pass through the body of the \<open>while\<close> loop ends: the loop goes on to its next
  test (\<open>Next\<close>), a \<open>break\<close> leaves the loop (\<open>Leave\<close>), or an exception leaves the
  function (\<open>Abort\<close>).
\<close>

datatype flow = Next | Leave | Abort error

text \<open>
  One pass through the body of the \<open>while\<close> loop (lines 273-319): the counter is
  incremented, line 274 prints it, and the \<open>try\<close> block runs. When the block raises, the
  handler prints the exception and breaks (lines 312-314). Otherwise the stop test is
  evaluated on the context reached; when it holds, line 318 prints and the loop breaks.
  The \<open>print\<close> statements of lines 274, 313 and 318 are under no handler.
\<close>

definition iteration :: "'w env \<Rightarrow> 'w state \<Rightarrow> flow \<times> 'w state" where
  "iteration E s =
     (case py_print E
             (line_274 ((ctx s)\<lparr>search_iterations := search_iterations (ctx s) + 1\<rparr>)) of
        Some pe \<Rightarrow>
          (Abort pe, s\<lparr>ctx := (ctx s)\<lparr>search_iterations := search_iterations (ctx s) + 1\<rparr>\<rparr>)
      | None \<Rightarrow>
          (case plan_and_execute E
                  (s\<lparr>ctx := (ctx s)\<lparr>search_iterations := search_iterations (ctx s) + 1\<rparr>\<rparr>) of
             (Some e, s') \<Rightarrow>
               (case py_print E (line_313 e) of
                  Some pe \<Rightarrow> (Abort pe, s')
                | None \<Rightarrow> (Leave, s'))
           | (None, s') \<Rightarrow>
               if sufficient (ctx s') then
                 (case py_print E line_318 of
                    Some pe \<Rightarrow> (Abort pe, s'\<lparr>trace := trace s' @ [StopTest (ctx s')]\<rparr>)
                  | None \<Rightarrow> (Leave, s'\<lparr>trace := trace s' @ [StopTest (ctx s')]\<rparr>))
               else (Next, s'\<lparr>trace := trace s' @ [StopTest (ctx s')]\<rparr>)))"

text \<open>
  The loop counter is changed by the increment only: tool calls, the extraction of
  findings and the execution of plans leave it alone. The termination of the loop rests
  on this.
\<close>

lemma add_results_history:
  "search_history (add_results p rs c) =
     search_history c @ map (\<lambda>r. r\<lparr>search_intent := p\<rparr>) rs"
  by (induction rs arbitrary: c) simp_all

lemma add_results_other:
  "search_iterations (add_results p rs c) = search_iterations c"
  "key_findings (add_results p rs c) = key_findings c"
  "query (add_results p rs c) = query c"
  "unanswered_questions (add_results p rs c) = unanswered_questions c"
  by (induction rs arbitrary: c) simp_all

lemma run_tool_other:
  "search_iterations (ctx (snd (run_tool E p t s))) = search_iterations (ctx s)"
  "key_findings (ctx (snd (run_tool E p t s))) = key_findings (ctx s)"
  "trace (snd (run_tool E p t s)) = trace s @ [ToolCall t]"
  by (simp_all add: run_tool_def search_error_handler_def add_results_other
        split: prod.splits sum.splits option.splits)

lemma run_tools_iterations:
  "search_iterations (ctx (snd (run_tools E p ts s))) = search_iterations (ctx s)"
proof (induction ts arbitrary: s)
  case Nil
  show ?case by simp
next
  case (Cons t ts)
  obtain r s' where rt: "run_tool E p t s = (r, s')" by (cases "run_tool E p t s")
  with run_tool_other(1)[of E p t s] Cons[of s'] show ?case
    by (cases r) simp_all
qed

lemma run_tools_findings:
  "key_findings (ctx (snd (run_tools E p ts s))) = key_findings (ctx s)"
proof (induction ts arbitrary: s)
  case Nil
  show ?case by simp
next
  case (Cons t ts)
  obtain r s' where rt: "run_tool E p t s = (r, s')" by (cases "run_tool E p t s")
  with run_tool_other(2)[of E p t s] Cons[of s'] show ?case
    by (cases r) simp_all
qed

lemma run_tools_trace:
  "\<exists>n. trace (snd (run_tools E p ts s)) = trace s @ map ToolCall (take n ts)"
proof (induction ts arbitrary: s)
  case Nil
  show ?case by simp
next
  case (Cons t ts)
  obtain r s' where rt: "run_tool E p t s = (r, s')" by (cases "run_tool E p t s")
  with run_tool_other(3)[of E p t s] have tr: "trace s' = trace s @ [ToolCall t]" by simp
  show ?case
  proof (cases r)
    case None
    from Cons[of s'] obtain n
      where "trace (snd (run_tools E p ts s')) = trace s' @ map ToolCall (take n ts)" ..
    with rt None tr have "trace (snd (run_tools E p (t # ts) s))
                            = trace s @ map ToolCall (take (Suc n) (t # ts))"
      by simp
    then show ?thesis ..
  next
    case (Some e)
    with rt tr have "trace (snd (run_tools E p (t # ts) s))
                       = trace s @ map ToolCall (take (Suc 0) (t # ts))"
      by simp
    then show ?thesis ..
  qed
qed

lemma process_response_iterations:
  "search_iterations (ctx (snd (process_response E plan resp s))) = search_iterations (ctx s)"
proof -
  have "search_iterations (ctx (snd (case r of (Some e, s1) \<Rightarrow> (Some e, s1)
          | (None, s1) \<Rightarrow> (None, extract_key_findings resp s1))))
        = search_iterations (ctx (snd r))" for r :: "error option \<times> 'a state"
    by (cases r; cases "fst r") (simp_all add: extract_key_findings_def)
  then show ?thesis
    by (simp add: process_response_def run_tools_iterations split: option.splits)
qed

lemma execute_plan_iterations:
  "search_iterations (ctx (snd (execute_plan E plan s))) = search_iterations (ctx s)"
  by (simp add: execute_plan_def process_response_iterations split: prod.splits sum.splits)

lemma execute_plans_iterations:
  "search_iterations (ctx (snd (execute_plans E i plans s))) = search_iterations (ctx s)"
proof (induction plans arbitrary: i s)
  case Nil
  show ?case by simp
next
  case (Cons plan plans)
  show ?case
  proof (cases "print_all E [line_283 i plan, line_284 plan, line_285 plan]")
    case (Some e)
    then show ?thesis by simp
  next
    case None
    show ?thesis
    proof (cases "execute_plan E plan s")
      case (Pair r s')
      with None Cons[of "Suc i" s'] execute_plan_iterations[of E plan s] show ?thesis
        by (cases r) simp_all
    qed
  qed
qed

lemma plan_and_execute_iterations:
  "search_iterations (ctx (snd (plan_and_execute E s))) = search_iterations (ctx s)"
  by (simp add: plan_and_execute_def execute_plans_iterations
        split: prod.splits sum.splits option.splits)

lemma iteration_iterations:
  "search_iterations (ctx (snd (iteration E s))) = search_iterations (ctx s) + 1"
proof -
  let ?s1 = "s\<lparr>ctx := (ctx s)\<lparr>search_iterations := search_iterations (ctx s) + 1\<rparr>\<rparr>"
  obtain r s' where pe: "plan_and_execute E ?s1 = (r, s')"
    by (cases "plan_and_execute E ?s1")
  with plan_and_execute_iterations[of E ?s1]
  have "search_iterations (ctx s') = search_iterations (ctx s) + 1" by simp
  with pe show ?thesis
    by (cases r) (simp_all add: iteration_def split: option.splits)
qed

text \<open>
  The \<open>while\<close> loop (lines 272-319): it ends normally when the counter has reached
  \<open>max_iterations\<close> and when a pass breaks, and it ends with the exception of a pass that
  aborts.
\<close>

function research_loop :: "'w env \<Rightarrow> int \<Rightarrow> 'w state \<Rightarrow> error option \<times> 'w state" where
  "research_loop E max_iterations s =
     (if search_iterations (ctx s) < max_iterations then
        (case iteration E s of
           (Next, s') \<Rightarrow> research_loop E max_iterations s'
         | (Leave, s') \<Rightarrow> (None, s')
         | (Abort e, s') \<Rightarrow> (Some e, s'))
      else (None, s))"
  by pat_completeness auto
termination
proof (relation "measure (\<lambda>(E, m, s). nat (m - search_iterations (ctx s)))")
  show "wf (measure (\<lambda>(E, m, s). nat (m - search_iterations (ctx s))))" by simp
next
  fix E :: "'w env" and max_iterations :: int and s s' :: "'w state" and r
  assume lt: "search_iterations (ctx s) < max_iterations"
    and it: "(r, s') = iteration E s"
  from it iteration_iterations[of E s]
  have "search_iterations (ctx s') = search_iterations (ctx s) + 1"
    by (metis snd_conv)
  with lt show "((E, max_iterations, s'), (E, max_iterations, s))
                  \<in> measure (\<lambda>(E, m, s). nat (m - search_iterations (ctx s)))"
    by simp
qed

declare research_loop.simps [simp del]

text \<open>
  \<open>synthesize_research(research_context)\<close>: the body of the function prints six lines
  (lines 245-250), then the model is called.
\<close>

definition synthesize_research ::
  "'w env \<Rightarrow> ResearchContext \<Rightarrow> 'w \<Rightarrow> (error + pystr) \<times> 'w" where
  "synthesize_research E c w =
     (case print_all E [line_245, line_246 c, line_247 c, line_248 c, line_249 c, line_250 c] of
        Some e \<Rightarrow> (Inl e, w)
      | None \<Rightarrow> llm_synthesize_research E c w)"

text \<open>The dictionary \<open>run_deep_research_agent\<close> returns.\<close>

record run_result =
  final_report :: pystr
  research_context :: ResearchContext
  iterations :: int

definition initial_state :: "pystr \<Rightarrow> 'w \<Rightarrow> 'w state" where
  "initial_state question w = \<lparr>ctx = new_context question, world = w, trace = []\<rparr>"

text \<open>
  What follows the loop (lines 321-335): line 322 prints, \<open>synthesize_research\<close> is
  called, lines 325-329 print, and the dictionary is returned. None of it is under a
  handler.
\<close>

definition synthesize_and_return :: "'w env \<Rightarrow> 'w state \<Rightarrow> (error + run_result) \<times> 'w state" where
  "synthesize_and_return E s =
     (case py_print E line_322 of
        Some e \<Rightarrow> (Inl e, s)
      | None \<Rightarrow>
          (case synthesize_research E (ctx s) (world s) of
             (Inl e, w') \<Rightarrow>
               (Inl e, s\<lparr>world := w', trace := trace s @ [SynthesizeCall (ctx s)]\<rparr>)
           | (Inr report, w') \<Rightarrow>
               (case print_all E [line_325, line_326, line_327 (ctx s), line_328 (ctx s),
                                  line_329 (ctx s)] of
                  Some e \<Rightarrow>
                    (Inl e, s\<lparr>world := w', trace := trace s @ [SynthesizeCall (ctx s)]\<rparr>)
                | None \<Rightarrow>
                    (Inr \<lparr>final_report = report, research_context = ctx s,
                          iterations = search_iterations (ctx s)\<rparr>,
                     s\<lparr>world := w', trace := trace s @ [SynthesizeCall (ctx s)]\<rparr>))))"

text \<open>
  \<open>run_deep_research_agent\<close> (lines 262-335): a new context, the two \<open>print\<close> statements
  of lines 269-270, the loop, and what follows it. The result is what the caller gets (the
  dictionary or the exception) and the state the run ends in.
\<close>

definition run_deep_research_agent ::
  "'w env \<Rightarrow> pystr \<Rightarrow> int \<Rightarrow> 'w \<Rightarrow> (error + run_result) \<times> 'w state" where
  "run_deep_research_agent E question max_iterations w =
     (case print_all E [line_269 question, line_270] of
        Some e \<Rightarrow> (Inl e, initial_state question w)
      | None \<Rightarrow>
          (case research_loop E max_iterations (initial_state question w) of
             (Some e, s) \<Rightarrow> (Inl e, s)
           | (None, s) \<Rightarrow> synthesize_and_return E s))"


section \<open>What standard output accepts\<close>

text \<open>A text without surrogates.\<close>

definition scalar_text :: "pystr \<Rightarrow> bool" where
  "scalar_text s \<longleftrightarrow> list_all (\<lambda>c. \<not> is_surrogate c) s"

fun is_complete :: "stdout_encoding \<Rightarrow> bool" where
  "is_complete (Complete h) = True"
| "is_complete (Partial f) = False"

lemma scalar_text_append [simp]: "scalar_text (a @ b) \<longleftrightarrow> scalar_text a \<and> scalar_text b"
  by (simp add: scalar_text_def)

lemma scalar_text_Cons [simp]: "scalar_text (c # s) \<longleftrightarrow> \<not> is_surrogate c \<and> scalar_text s"
  by (simp add: scalar_text_def)

lemma scalar_text_Nil [simp]: "scalar_text []"
  by (simp add: scalar_text_def)

lemma printable_append: "printable E (a @ b) \<longleftrightarrow> printable E a \<and> printable E b"
  by (simp add: printable_def)

lemma printable_scalar:
  assumes "is_complete (stdout E)" and "scalar_text s"
  shows "printable E s"
proof -
  from assms(1) obtain h where "stdout E = Complete h" by (cases "stdout E") simp_all
  with assms(2) show ?thesis
    by (simp add: printable_def scalar_text_def list_all_iff)
qed

lemma py_print_scalar:
  assumes "is_complete (stdout E)" and "scalar_text s"
  shows "py_print E s = None"
proof -
  have "scalar_text (s @ [10])" using assms(2) by (simp add: is_surrogate_def)
  from printable_scalar[OF assms(1) this] show ?thesis by (simp add: py_print_def)
qed

lemma of_char_less_256: "(of_char c :: nat) < 256"
proof -
  have "(of_char c :: nat) mod 256 < 256" by simp
  then show ?thesis by (simp only: of_char_mod_256)
qed

lemma scalar_ascii: "scalar_text (str_of cs)"
proof -
  have "\<not> is_surrogate (of_char c)" for c :: char
    using of_char_less_256[of c] unfolding is_surrogate_def by linarith
  then show ?thesis
    by (simp add: scalar_text_def str_of_def list_all_iff)
qed

lemma digits_scalar: "scalar_text (digits n)"
proof (induction n rule: digits.induct)
  case (1 n)
  show ?case
  proof (cases "n < 10")
    case True
    then show ?thesis by (subst digits.simps) (simp add: is_surrogate_def)
  next
    case False
    have "n mod 10 < 10" by simp
    then have "\<not> is_surrogate (48 + n mod 10)" by (simp add: is_surrogate_def)
    with False 1 show ?thesis by (subst digits.simps) simp
  qed
qed

lemma py_str_int_scalar: "scalar_text (py_str_int i)"
  by (simp add: py_str_int_def digits_scalar is_surrogate_def)


lemma py_print_complete:
  assumes "is_complete (stdout E)" and "scalar_text a" and "printable E b"
  shows "py_print E (a @ b) = None"
proof -
  have "scalar_text [10]" by (simp add: is_surrogate_def)
  with assms(1) have "printable E [10]" by (rule printable_scalar)
  with printable_scalar[OF assms(1,2)] assms(3) show ?thesis
    by (simp add: py_print_def printable_append)
qed

lemma py_print_None_iff: "py_print E s = None \<longleftrightarrow> printable E (s @ [10])"
  by (simp add: py_print_def)

lemma banner_printed:
  assumes "py_print E (line_269 question) = None"
  shows "is_complete (stdout E)" and "printable E question"
proof -
  from assms have p: "printable E (line_269 question @ [10])"
    by (simp add: py_print_None_iff)
  then have "stdout_encodes (stdout E) 128300"
    by (simp add: line_269_def printable_def)
  then show "is_complete (stdout E)" by (cases "stdout E") simp_all
  from p show "printable E question"
    by (simp add: line_269_def printable_def)
qed

lemma scalar_replicate: "\<not> is_surrogate c \<Longrightarrow> scalar_text (replicate n c)"
  by (simp add: scalar_text_def list_all_iff)

lemma scalar_intent_value: "scalar_text (intent_value p)"
  by (cases p) (simp_all add: scalar_ascii)

lemma fixed_lines_scalar:
  "scalar_text line_245" "scalar_text (line_247 c)" "scalar_text (line_249 c)"
  "scalar_text (line_250 c)" "scalar_text line_270" "scalar_text (line_274 c)"
  "scalar_text (line_279 plans)" "scalar_text (line_283 i plan)" "scalar_text (line_299 rs)"
  "scalar_text line_318" "scalar_text line_322" "scalar_text line_325" "scalar_text line_326"
  "scalar_text (line_327 c)" "scalar_text (line_328 c)" "scalar_text (line_329 c)"
  by (simp_all add: line_245_def line_247_def line_249_def line_250_def line_270_def
        line_274_def line_279_def line_283_def line_299_def line_318_def line_322_def
        line_325_def line_326_def line_327_def line_328_def line_329_def
        scalar_ascii py_str_int_scalar scalar_replicate scalar_intent_value is_surrogate_def)

lemma fixed_prints:
  assumes "is_complete (stdout E)"
  shows "py_print E line_245 = None" "py_print E (line_247 c) = None"
    "py_print E (line_249 c) = None" "py_print E (line_250 c) = None"
    "py_print E line_270 = None" "py_print E (line_274 c) = None"
    "py_print E (line_279 plans) = None" "py_print E (line_283 i plan) = None"
    "py_print E (line_299 rs) = None" "py_print E line_318 = None"
    "py_print E line_322 = None" "py_print E line_325 = None" "py_print E line_326 = None"
    "py_print E (line_327 c) = None" "py_print E (line_328 c) = None"
    "py_print E (line_329 c) = None"
  by (simp_all add: py_print_scalar[OF assms] fixed_lines_scalar)


section \<open>Reading the trace, and induction along the loop\<close>

text \<open>The events of the loop itself: a planning call opens a round, the stop test ends it.\<close>

fun loop_event :: "event \<Rightarrow> bool" where
  "loop_event (PlanCall c) = True"
| "loop_event (StopTest c) = True"
| "loop_event e = False"

fun is_plan_call :: "event \<Rightarrow> bool" where
  "is_plan_call (PlanCall c) = True"
| "is_plan_call e = False"

text \<open>The planning rounds of a run: the calls of \<open>plan_searches\<close> it made.\<close>

definition planning_rounds :: "event list \<Rightarrow> nat" where
  "planning_rounds tr = length (filter is_plan_call tr)"

lemma loop_event_tools: "filter loop_event (map ToolCall ts) = []"
  by (induction ts) simp_all

lemma run_tools_loop_events:
  "filter loop_event (trace (snd (run_tools E p ts s))) = filter loop_event (trace s)"
proof -
  from run_tools_trace[of E p ts s] obtain n
    where "trace (snd (run_tools E p ts s)) = trace s @ map ToolCall (take n ts)" ..
  then show ?thesis by (simp add: loop_event_tools)
qed

lemma extract_key_findings_simps [simp]:
  "trace (extract_key_findings resp s) = trace s"
  "world (extract_key_findings resp s) = world s"
  "search_history (ctx (extract_key_findings resp s)) = search_history (ctx s)"
  "search_iterations (ctx (extract_key_findings resp s)) = search_iterations (ctx s)"
  "query (ctx (extract_key_findings resp s)) = query (ctx s)"
  "key_findings (ctx (extract_key_findings resp s))
     = extract_findings (narrative resp) (key_findings (ctx s))"
  by (simp_all add: extract_key_findings_def)

text \<open>The two ways \<open>process_response\<close> ends, in terms of the tool calls.\<close>

lemma process_response_cases [case_names raised returned]:
  obtains
    e s1 where "process_response E plan resp s = (Some e, s1)"
      "tools resp \<noteq> None" "run_tools E (intent plan) (the (tools resp)) s = (Some e, s1)"
  | s1 where "process_response E plan resp s = (None, extract_key_findings resp s1)"
      "s1 = snd (run_tools E (intent plan) (case tools resp of None \<Rightarrow> [] | Some ts \<Rightarrow> ts) s)"
      "fst (run_tools E (intent plan) (case tools resp of None \<Rightarrow> [] | Some ts \<Rightarrow> ts) s) = None"
proof (cases "tools resp")
  case None
  then have "process_response E plan resp s = (None, extract_key_findings resp s)"
    "s = snd (run_tools E (intent plan) (case tools resp of None \<Rightarrow> [] | Some ts \<Rightarrow> ts) s)"
    "fst (run_tools E (intent plan) (case tools resp of None \<Rightarrow> [] | Some ts \<Rightarrow> ts) s) = None"
    by (simp_all add: process_response_def)
  then show ?thesis by (rule that(2))
next
  case (Some ts)
  have pr: "process_response E plan resp s =
          (case run_tools E (intent plan) ts s of
             (Some e, s1) \<Rightarrow> (Some e, s1)
           | (None, s1) \<Rightarrow> (None, extract_key_findings resp s1))"
    using Some by (cases "ts = []") (simp_all add: process_response_def)
  show ?thesis
  proof (cases "run_tools E (intent plan) ts s")
    case (Pair r s1)
    show ?thesis
    proof (cases r)
      case None
      with Pair Some pr
      have "process_response E plan resp s = (None, extract_key_findings resp s1)"
        "s1 = snd (run_tools E (intent plan) (case tools resp of None \<Rightarrow> [] | Some ts \<Rightarrow> ts) s)"
        "fst (run_tools E (intent plan) (case tools resp of None \<Rightarrow> [] | Some ts \<Rightarrow> ts) s) = None"
        by simp_all
      then show ?thesis by (rule that(2))
    next
      case (Some e)
      with Pair \<open>tools resp = Some ts\<close> pr
      have "process_response E plan resp s = (Some e, s1)"
        "tools resp \<noteq> None" "run_tools E (intent plan) (the (tools resp)) s = (Some e, s1)"
        by simp_all
      then show ?thesis by (rule that(1))
    qed
  qed
qed

lemma process_response_trace:
  "filter loop_event (trace (snd (process_response E plan resp s))) = filter loop_event (trace s)"
proof (cases rule: process_response_cases[of E plan resp s])
  case (raised e s1)
  with run_tools_loop_events[of E "intent plan" "the (tools resp)" s] show ?thesis by simp
next
  case (returned s1)
  with run_tools_loop_events[of E "intent plan" "case tools resp of None \<Rightarrow> [] | Some ts \<Rightarrow> ts" s]
  show ?thesis by simp
qed

lemma execute_plan_trace:
  "filter loop_event (trace (snd (execute_plan E plan s))) = filter loop_event (trace s)"
  by (simp add: execute_plan_def process_response_trace split: prod.splits sum.splits)

lemma execute_plans_trace:
  "filter loop_event (trace (snd (execute_plans E i plans s))) = filter loop_event (trace s)"
proof (induction plans arbitrary: i s)
  case Nil
  show ?case by simp
next
  case (Cons plan plans)
  show ?case
  proof (cases "print_all E [line_283 i plan, line_284 plan, line_285 plan]")
    case (Some e)
    then show ?thesis by simp
  next
    case None
    show ?thesis
    proof (cases "execute_plan E plan s")
      case (Pair r s')
      with None Cons[of "Suc i" s'] execute_plan_trace[of E plan s] show ?thesis
        by (cases r) simp_all
    qed
  qed
qed

lemma plan_and_execute_trace:
  "filter loop_event (trace (snd (plan_and_execute E s)))
     = filter loop_event (trace s) @ [PlanCall (ctx s)]"
  by (simp add: plan_and_execute_def execute_plans_trace
        split: prod.splits sum.splits option.splits)

text \<open>The context after the increment of line 273.\<close>

definition counted :: "ResearchContext \<Rightarrow> ResearchContext" where
  "counted c = c\<lparr>search_iterations := search_iterations c + 1\<rparr>"

text \<open>
  What one pass adds to the events of the loop: nothing when line 274 cannot be printed,
  the planning call alone when the \<open>try\<close> block raises, and otherwise the planning call and
  the stop test, which decides whether the loop goes on.
\<close>

lemma iteration_trace:
  "(fst (iteration E s) \<noteq> Next \<and> \<not> is_complete (stdout E)
      \<and> filter loop_event (trace (snd (iteration E s))) = filter loop_event (trace s))
   \<or> (fst (iteration E s) \<noteq> Next
      \<and> filter loop_event (trace (snd (iteration E s)))
          = filter loop_event (trace s) @ [PlanCall (counted (ctx s))])
   \<or> ((fst (iteration E s) = Next \<longleftrightarrow> \<not> sufficient (ctx (snd (iteration E s))))
      \<and> filter loop_event (trace (snd (iteration E s)))
          = filter loop_event (trace s)
            @ [PlanCall (counted (ctx s)), StopTest (ctx (snd (iteration E s)))])"
proof (cases "py_print E (line_274 (counted (ctx s)))")
  case (Some pe)
  then have "\<not> is_complete (stdout E)" using fixed_prints(6)[of E "counted (ctx s)"] by auto
  with Some show ?thesis by (simp add: iteration_def counted_def)
next
  case None
  show ?thesis
  proof (cases "plan_and_execute E (s\<lparr>ctx := counted (ctx s)\<rparr>)")
    case (Pair r s')
    from plan_and_execute_trace[of E "s\<lparr>ctx := counted (ctx s)\<rparr>"] Pair
    have tr: "filter loop_event (trace s')
                = filter loop_event (trace s) @ [PlanCall (counted (ctx s))]"
      by simp
    show ?thesis
    proof (cases r)
      case (Some e)
      with None Pair tr show ?thesis
        by (simp add: iteration_def counted_def split: option.splits)
    next
      case r: None
      with None Pair tr show ?thesis
        by (simp add: iteration_def counted_def split: option.splits)
    qed
  qed
qed

text \<open>The three ways through one unfolding of the loop.\<close>

lemma research_loop_cases [case_names at_max ended continued]:
  obtains
    "\<not> search_iterations (ctx s) < m" "research_loop E m s = (None, s)"
  | fl s' where "search_iterations (ctx s) < m" "iteration E s = (fl, s')" "fl \<noteq> Next"
      "snd (research_loop E m s) = s'"
      "fst (research_loop E m s) = (case fl of Abort e \<Rightarrow> Some e | _ \<Rightarrow> None)"
  | s' where "search_iterations (ctx s) < m" "iteration E s = (Next, s')"
      "research_loop E m s = research_loop E m s'"
proof (cases "search_iterations (ctx s) < m")
  case False
  then show ?thesis using that(1) by (simp add: research_loop.simps)
next
  case True
  show ?thesis
  proof (cases "iteration E s")
    case (Pair fl s')
    show ?thesis
    proof (cases fl)
      case Next
      with Pair True show ?thesis using that(3) by (simp add: research_loop.simps)
    next
      case Leave
      with Pair True show ?thesis using that(2)[of fl s'] by (simp add: research_loop.simps)
    next
      case (Abort e)
      with Pair True show ?thesis using that(2)[of fl s'] by (simp add: research_loop.simps)
    qed
  qed
qed

text \<open>
  Induction along the loop: the distance of the counter to \<open>max_iterations\<close> shrinks
  with every round.
\<close>

lemma research_loop_induct [consumes 0, case_names at_max ended continued]:
  assumes "\<And>s. \<not> search_iterations (ctx s) < m \<Longrightarrow> research_loop E m s = (None, s) \<Longrightarrow> P s"
    and "\<And>s fl s'. search_iterations (ctx s) < m \<Longrightarrow> iteration E s = (fl, s') \<Longrightarrow>
           fl \<noteq> Next \<Longrightarrow> snd (research_loop E m s) = s' \<Longrightarrow>
           fst (research_loop E m s) = (case fl of Abort e \<Rightarrow> Some e | _ \<Rightarrow> None) \<Longrightarrow> P s"
    and "\<And>s s'. search_iterations (ctx s) < m \<Longrightarrow> iteration E s = (Next, s') \<Longrightarrow>
           research_loop E m s = research_loop E m s' \<Longrightarrow> P s' \<Longrightarrow> P s"
  shows "P s"
proof (induction "nat (m - search_iterations (ctx s))" arbitrary: s rule: less_induct)
  case less
  show ?case
  proof (cases rule: research_loop_cases[of s m E])
    case at_max
    then show ?thesis by (rule assms(1))
  next
    case (ended fl s')
    then show ?thesis by (rule assms(2))
  next
    case (continued s')
    from continued(2) iteration_iterations[of E s]
    have "search_iterations (ctx s') = search_iterations (ctx s) + 1" by simp
    with continued(1) have "nat (m - search_iterations (ctx s')) < nat (m - search_iterations (ctx s))"
      by simp
    then have "P s'" by (rule less)
    with continued show ?thesis by (rule assms(3))
  qed
qed

lemma research_loop_iterations_ge:
  "search_iterations (ctx s) \<le> search_iterations (ctx (snd (research_loop E m s)))"
proof (induction s rule: research_loop_induct[of m E])
  case (at_max s)
  then show ?case by simp
next
  case (ended s fl s')
  with iteration_iterations[of E s] show ?case by simp
next
  case (continued s s')
  with iteration_iterations[of E s] show ?case by simp
qed

lemma research_loop_iterations_gt:
  assumes "search_iterations (ctx s) < m"
  shows "search_iterations (ctx s) < search_iterations (ctx (snd (research_loop E m s)))"
proof (cases rule: research_loop_cases[of s m E])
  case at_max
  with assms show ?thesis by simp
next
  case (ended fl s')
  with iteration_iterations[of E s] show ?thesis by simp
next
  case (continued s')
  with iteration_iterations[of E s] research_loop_iterations_ge[of s' E m] show ?thesis by simp
qed

lemma research_loop_iterations_le:
  "search_iterations (ctx (snd (research_loop E m s))) \<le> max m (search_iterations (ctx s))"
proof (induction s rule: research_loop_induct[of m E])
  case (at_max s)
  then show ?case by simp
next
  case (ended s fl s')
  with iteration_iterations[of E s] show ?case by simp
next
  case (continued s s')
  with iteration_iterations[of E s] show ?case by simp
qed

lemma planning_rounds_append:
  "planning_rounds (xs @ ys) = planning_rounds xs + planning_rounds ys"
  by (simp add: planning_rounds_def)

lemma planning_rounds_loop_event:
  "planning_rounds tr = planning_rounds (filter loop_event tr)"
proof -
  have "(\<lambda>e. loop_event e \<and> is_plan_call e) = is_plan_call"
  proof
    fix e show "(loop_event e \<and> is_plan_call e) = is_plan_call e" by (cases e) simp_all
  qed
  then show ?thesis by (simp add: planning_rounds_def)
qed

text \<open>
  On a stream that accepts the first line of the run, every pass of the loop reaches its
  planning call.
\<close>

lemma iteration_planning_rounds:
  assumes "is_complete (stdout E)"
  shows "planning_rounds (trace (snd (iteration E s))) = planning_rounds (trace s) + 1"
proof -
  have "planning_rounds (filter loop_event (trace (snd (iteration E s))))
          = planning_rounds (filter loop_event (trace s)) + 1"
    using iteration_trace[of E s] assms
    by (auto simp: planning_rounds_append) (simp_all add: planning_rounds_def)
  then show ?thesis using planning_rounds_loop_event by metis
qed

lemma research_loop_planning_rounds:
  assumes "is_complete (stdout E)"
  shows "int (planning_rounds (trace (snd (research_loop E m s)))) - int (planning_rounds (trace s))
     = search_iterations (ctx (snd (research_loop E m s))) - search_iterations (ctx s)"
proof (induction s rule: research_loop_induct[of m E])
  case (at_max s)
  then show ?case by simp
next
  case (ended s fl s')
  with iteration_iterations[of E s] iteration_planning_rounds[OF assms, of s] show ?case by simp
next
  case (continued s s')
  with iteration_iterations[of E s] iteration_planning_rounds[OF assms, of s] show ?case by simp
qed


section \<open>Rounding\<close>

lemma bitlen_bounds_rat:
  assumes "0 < p"
  shows "(2::rat) powi (bitlen p - 1) \<le> of_int p" and "of_int p < (2::rat) powi bitlen p"
proof -
  from assms have b1: "1 \<le> bitlen p" by (auto simp: bitlen_alt_def)
  from bitlen_bounds[OF assms]
  have lo: "2 ^ nat (bitlen p - 1) \<le> p" and hi: "p < 2 ^ nat (bitlen p)" by simp_all
  from lo have "(of_int (2 ^ nat (bitlen p - 1)) :: rat) \<le> of_int p"
    by (simp only: of_int_le_iff)
  then have "(2::rat) ^ nat (bitlen p - 1) \<le> of_int p" by simp
  moreover have "(2::rat) powi (bitlen p - 1) = 2 ^ nat (bitlen p - 1)"
    using b1 by (simp add: power_int_def)
  ultimately show "(2::rat) powi (bitlen p - 1) \<le> of_int p" by simp
  from hi have "(of_int p :: rat) < of_int (2 ^ nat (bitlen p))"
    by (simp only: of_int_less_iff)
  then have "(of_int p :: rat) < 2 ^ nat (bitlen p)" by simp
  moreover have "(2::rat) powi (bitlen p) = 2 ^ nat (bitlen p)"
    using b1 by (simp add: power_int_def)
  ultimately show "of_int p < (2::rat) powi bitlen p" by simp
qed

lemma floor_log2_bounds:
  assumes "0 < x"
  shows "2 powi floor_log2 x \<le> x" and "x < 2 powi (floor_log2 x + 1)"
proof -
  obtain p q where pq: "quotient_of x = (p, q)" by (cases "quotient_of x")
  then have q: "0 < q" by (rule quotient_of_denom_pos)
  from pq have x: "x = of_int p / of_int q" by (rule quotient_of_div)
  with assms q have p: "0 < p" by (simp add: zero_less_divide_iff)
  let ?a = "bitlen p" and ?b = "bitlen q"
  note A = bitlen_bounds_rat[OF p] and B = bitlen_bounds_rat[OF q]
  have Q: "(0::rat) < of_int q" using q by simp
  have xq: "x * of_int q = of_int p" using x Q by simp
  have "2 powi (?a - ?b - 1) * of_int q < 2 powi (?a - ?b - 1) * (2::rat) powi ?b"
    using B(2) by simp
  also have "\<dots> = 2 powi (?a - 1)"
    by (simp add: power_int_add[symmetric])
  also have "\<dots> \<le> x * of_int q" using A(1) xq by simp
  finally have lo: "2 powi (?a - ?b - 1) < x" using Q by simp
  have "x * of_int q < 2 powi ?a" using A(2) xq by simp
  also have "\<dots> = 2 powi (?a - ?b + 1) * (2::rat) powi (?b - 1)"
    by (simp add: power_int_add[symmetric])
  also have "\<dots> \<le> 2 powi (?a - ?b + 1) * of_int q" using B(1) by simp
  finally have hi: "x < 2 powi (?a - ?b + 1)" using Q by simp
  show "2 powi floor_log2 x \<le> x" using lo pq by (simp add: floor_log2_def)
  show "x < 2 powi (floor_log2 x + 1)" using hi pq by (auto simp: floor_log2_def not_le)
qed

lemma two_powi_less_exp:
  assumes "(2::rat) powi m < 2 powi n"
  shows "m < n"
proof (rule ccontr)
  assume "\<not> m < n"
  then have "n \<le> m" by simp
  then have "(2::rat) powi n \<le> 2 powi m" by (rule power_int_increasing) simp
  with assms show False by simp
qed

lemma floor_log2_unique:
  assumes "2 powi e \<le> x" and "x < 2 powi (e + 1)"
  shows "floor_log2 x = e"
proof -
  have "(0::rat) < 2 powi e" by simp
  from this assms(1) have pos: "0 < x" by (rule less_le_trans)
  note b = floor_log2_bounds[OF pos]
  from assms(1) b(2) have "(2::rat) powi e < 2 powi (floor_log2 x + 1)" by simp
  then have "e < floor_log2 x + 1" by (rule two_powi_less_exp)
  moreover from b(1) assms(2) have "(2::rat) powi floor_log2 x < 2 powi (e + 1)" by simp
  then have "floor_log2 x < e + 1" by (rule two_powi_less_exp)
  ultimately show ?thesis by simp
qed

lemma floor_log2_mono:
  assumes "0 < x" and "x \<le> y"
  shows "floor_log2 x \<le> floor_log2 y"
proof -
  from assms have y: "0 < y" by simp
  from floor_log2_bounds(1)[OF assms(1)] assms(2) floor_log2_bounds(2)[OF y]
  have "(2::rat) powi floor_log2 x < 2 powi (floor_log2 y + 1)" by simp
  then have "floor_log2 x < floor_log2 y + 1" by (rule two_powi_less_exp)
  then show ?thesis by simp
qed

lemma round_half_even_cases:
  "round_half_even x = \<lfloor>x\<rfloor> \<and> x - of_int \<lfloor>x\<rfloor> \<le> 1 / 2
   \<or> round_half_even x = \<lfloor>x\<rfloor> + 1 \<and> 1 / 2 \<le> x - of_int \<lfloor>x\<rfloor>"
  by (auto simp: round_half_even_def)

lemma round_half_even_of_int [simp]: "round_half_even (of_int n) = n"
  by (simp add: round_half_even_def)

lemma round_half_even_mono:
  assumes "x \<le> y"
  shows "round_half_even x \<le> round_half_even y"
proof (cases "\<lfloor>x\<rfloor> = \<lfloor>y\<rfloor>")
  case True
  with assms show ?thesis by (auto simp: round_half_even_def)
next
  case False
  with assms have "\<lfloor>x\<rfloor> < \<lfloor>y\<rfloor>" using floor_mono[OF assms] by simp
  with round_half_even_cases[of x] round_half_even_cases[of y] show ?thesis by auto
qed


lemma spacing_exponent_mono:
  assumes "0 < x" and "x \<le> y"
  shows "spacing_exponent x \<le> spacing_exponent y"
  using floor_log2_mono[OF assms] by (simp add: spacing_exponent_def)

lemma two_powi_nat: "0 \<le> k \<Longrightarrow> (2::rat) powi k = of_int (2 ^ nat k)"
  by (simp add: power_int_def)

lemma round_positive_nonneg:
  assumes "0 < x"
  shows "0 \<le> round_positive x"
proof -
  have "0 \<le> x / 2 powi spacing_exponent x" using assms by simp
  from round_half_even_mono[OF this] round_half_even_of_int[of 0] show ?thesis
    by (simp add: round_positive_def)
qed

lemma round_positive_mono:
  assumes "0 < x" and "x \<le> y"
  shows "round_positive x \<le> round_positive y"
proof -
  let ?tx = "spacing_exponent x" and ?ty = "spacing_exponent y"
  from assms have y: "0 < y" by simp
  have le: "?tx \<le> ?ty" using assms by (rule spacing_exponent_mono)
  show ?thesis
  proof (cases "?tx = ?ty")
    case True
    from assms(2) have "x / 2 powi ?ty \<le> y / 2 powi ?ty"
      by (simp add: divide_right_mono)
    from round_half_even_mono[OF this] True show ?thesis
      by (simp add: round_positive_def)
  next
    case False
    with le have lt: "?tx < ?ty" by simp
    let ?E = "floor_log2 y"
    from lt have E: "- 1022 < ?E" "floor_log2 x < ?E" "?ty = ?E - 52" "?tx < ?E"
      by (simp_all add: spacing_exponent_def max_def split: if_splits)
    have "x < 2 powi (floor_log2 x + 1)" using assms(1) by (rule floor_log2_bounds)
    also have "\<dots> \<le> 2 powi ?E" using E(2) by (intro power_int_increasing) simp_all
    finally have xE: "x \<le> 2 powi ?E" by simp
    have yE: "2 powi ?E \<le> y" using y by (rule floor_log2_bounds)
    have "x / 2 powi ?tx \<le> 2 powi ?E / 2 powi ?tx"
      using xE by (simp add: divide_right_mono)
    also have "\<dots> = 2 powi (?E - ?tx)" by (simp add: power_int_diff)
    also have "\<dots> = of_int (2 ^ nat (?E - ?tx))" using E(4) by (simp add: two_powi_nat)
    finally have "round_half_even (x / 2 powi ?tx) \<le> 2 ^ nat (?E - ?tx)"
      using round_half_even_mono round_half_even_of_int by metis
    then have "(of_int (round_half_even (x / 2 powi ?tx)) :: rat) \<le> of_int (2 ^ nat (?E - ?tx))"
      by (simp only: of_int_le_iff)
    also have "\<dots> = 2 powi (?E - ?tx)" using E(4) by (simp add: two_powi_nat)
    finally have "round_positive x \<le> 2 powi (?E - ?tx) * 2 powi ?tx"
      by (simp add: round_positive_def)
    also have "\<dots> = 2 powi ?E" by (simp add: power_int_add[symmetric])
    finally have lo: "round_positive x \<le> 2 powi ?E" .
    have "(of_int (2 ^ 52) :: rat) = 2 powi ?E / 2 powi ?ty"
      unfolding E(3) by (simp add: power_int_diff[symmetric])
    also have "\<dots> \<le> y / 2 powi ?ty" using yE by (simp add: divide_right_mono)
    finally have "2 ^ 52 \<le> round_half_even (y / 2 powi ?ty)"
      using round_half_even_mono round_half_even_of_int by metis
    then have "(of_int (2 ^ 52) :: rat) \<le> of_int (round_half_even (y / 2 powi ?ty))"
      by (simp only: of_int_le_iff)
    then have "of_int (2 ^ 52) * 2 powi ?ty \<le> round_positive y"
      by (simp add: round_positive_def)
    moreover have "(of_int (2 ^ 52) :: rat) * 2 powi ?ty = 2 powi ?E"
      unfolding E(3) by (simp add: power_int_diff)
    ultimately have "2 powi ?E \<le> round_positive y" by simp
    with lo show ?thesis by simp
  qed
qed

text \<open>Rounding keeps the order.\<close>

lemma round_double_mono:
  assumes "x \<le> y"
  shows "round_double x \<le> round_double y"
proof -
  consider "0 < x" | "x = 0" "y = 0" | "x = 0" "0 < y" | "x < 0" "0 \<le> y" | "y < 0"
    using assms by linarith
  then show ?thesis
  proof cases
    case 1
    with assms round_positive_mono[OF 1 assms] show ?thesis by (simp add: round_double_def)
  next
    case 2
    then show ?thesis by simp
  next
    case 3
    with round_positive_nonneg[of y] show ?thesis by (simp add: round_double_def)
  next
    case 4
    with round_positive_nonneg[of "- x"] round_positive_nonneg[of y] show ?thesis
      by (cases "y = 0") (simp_all add: round_double_def)
  next
    case 5
    with assms round_positive_mono[of "- y" "- x"] show ?thesis
      by (simp add: round_double_def)
  qed
qed

text \<open>How a positive number of known exponent, at least \<open>-1022\<close>, is rounded.\<close>

lemma round_double_normal:
  assumes "2 powi e \<le> x" and "x < 2 powi (e + 1)" and "- 1022 \<le> e"
  shows "round_double x = of_int (round_half_even (x / 2 powi (e - 52))) * 2 powi (e - 52)"
proof -
  have "(0::rat) < 2 powi e" by simp
  from this assms(1) have pos: "0 < x" by (rule less_le_trans)
  from floor_log2_unique[OF assms(1,2)] assms(3) have "spacing_exponent x = e - 52"
    by (simp add: spacing_exponent_def)
  with pos show ?thesis by (simp add: round_double_def round_positive_def)
qed

lemma floor_numeral_div [simp]:
  "\<lfloor>numeral a / numeral b :: rat\<rfloor> = numeral a div numeral b"
  using floor_divide_of_int_eq[of "numeral a" "numeral b", where ?'a = rat] by simp

lemma float_0_1_value: "float_0_1 = 3602879701896397 / 36028797018963968"
  unfolding float_0_1_def
  by (subst round_double_normal[of "- 4"]) (simp_all add: round_half_even_def)


lemma round_double_0 [simp]: "round_double 0 = 0"
  by (simp add: round_double_def)

lemma round_double_1 [simp]: "round_double 1 = 1"
  by (subst round_double_normal[of 0]) (simp_all add: round_half_even_def)

lemma round_double_minus: "round_double (- x) = - round_double x"
  by (simp add: round_double_def)

lemma round_double_2_1023: "round_double (2 ^ 1023) = 2 ^ 1023"
proof -
  have "round_double (2 ^ 1023) = of_int (round_half_even (of_int (2 ^ 52))) * 2 powi 971"
    by (subst round_double_normal[of 1023]) simp_all
  then show ?thesis by (simp only: round_half_even_of_int) simp
qed

lemma float_0_1_bounds: "0 < float_0_1" "float_0_1 \<le> 1 / 2"
  by (simp_all add: float_0_1_value)

section \<open>Relevance scores\<close>

lemma float_of_int_nonneg:
  assumes "float_of_int (int i) = Some fi"
  shows "0 \<le> fi"
proof -
  have "round_double 0 \<le> round_double (of_int (int i))" by (rule round_double_mono) simp
  with assms show ?thesis by (auto simp: float_of_int_def split: if_splits)
qed

lemma float_of_int_mono:
  assumes "float_of_int (int i) = Some fi" and "float_of_int (int j) = Some fj" and "i \<le> j"
  shows "fi \<le> fj"
proof -
  have "round_double (of_int (int i)) \<le> round_double (of_int (int j))"
    using assms(3) by (intro round_double_mono) simp
  with assms(1,2) show ?thesis by (auto simp: float_of_int_def split: if_splits)
qed

text \<open>
  No operation of the computation of a score leaves the finite doubles: the product and the
  difference stay below \<open>2^1024\<close> in absolute value.
\<close>

lemma score_computation_finite:
  assumes "float_of_int (int i) = Some fi"
  shows "\<bar>float_mul fi float_0_1\<bar> < 2 ^ 1024"
    and "\<bar>float_sub 1 (float_mul fi float_0_1)\<bar> < 2 ^ 1024"
proof -
  let ?p = "float_mul fi float_0_1"
  from assms have fi: "0 \<le> fi" by (rule float_of_int_nonneg)
  from assms have "fi < 2 ^ 1024" by (auto simp: float_of_int_def split: if_splits)
  with fi float_0_1_bounds have "fi * float_0_1 \<le> 2 ^ 1024 * (1 / 2)"
    by (intro mult_mono) simp_all
  then have "fi * float_0_1 \<le> 2 ^ 1023" by simp
  then have "?p \<le> round_double (2 ^ 1023)" unfolding float_mul_def by (rule round_double_mono)
  then have hi: "?p \<le> 2 ^ 1023" by (simp only: round_double_2_1023)
  have "0 \<le> fi * float_0_1" using fi float_0_1_bounds by simp
  then have "round_double 0 \<le> ?p" unfolding float_mul_def by (rule round_double_mono)
  then have lo: "0 \<le> ?p" by simp
  from lo hi show "\<bar>?p\<bar> < 2 ^ 1024" by simp
  from lo have "round_double (1 - ?p) \<le> round_double 1" by (intro round_double_mono) simp
  then have d_hi: "float_sub 1 ?p \<le> 1" by (simp add: float_sub_def)
  from hi have "- (2 ^ 1023) \<le> 1 - ?p" by simp
  then have "round_double (- (2 ^ 1023)) \<le> round_double (1 - ?p)" by (rule round_double_mono)
  then have d_lo: "- (2 ^ 1023) \<le> float_sub 1 ?p"
    by (simp only: round_double_minus round_double_2_1023 float_sub_def)
  from d_lo d_hi show "\<bar>float_sub 1 ?p\<bar> < 2 ^ 1024" by simp
qed

text \<open>A score is a double between \<open>0.1\<close> and \<open>1.0\<close>, so the validation of the score never fails.\<close>

lemma position_score_range:
  assumes "position_score i = Some sc"
  shows "float_0_1 \<le> sc" and "sc \<le> 1" and "0 \<le> sc"
proof -
  from assms obtain fi where fi: "float_of_int (int i) = Some fi"
    and sc: "sc = max float_0_1 (float_sub 1 (float_mul fi float_0_1))"
    by (auto simp: position_score_def split: option.splits)
  from sc show "float_0_1 \<le> sc" by simp
  with float_0_1_bounds show "0 \<le> sc" by simp
  have "0 \<le> fi * float_0_1" using float_of_int_nonneg[OF fi] float_0_1_bounds by simp
  then have "round_double 0 \<le> float_mul fi float_0_1"
    unfolding float_mul_def by (rule round_double_mono)
  then have "1 - float_mul fi float_0_1 \<le> 1" by simp
  then have "float_sub 1 (float_mul fi float_0_1) \<le> round_double 1"
    unfolding float_sub_def by (rule round_double_mono)
  with sc float_0_1_bounds show "sc \<le> 1" by simp
qed

text \<open>A later position never has a larger score.\<close>

lemma position_score_antimono:
  assumes "position_score i = Some a" and "position_score j = Some b" and "i \<le> j"
  shows "b \<le> a"
proof -
  from assms(1) obtain fi where fi: "float_of_int (int i) = Some fi"
    and a: "a = max float_0_1 (float_sub 1 (float_mul fi float_0_1))"
    by (auto simp: position_score_def split: option.splits)
  from assms(2) obtain fj where fj: "float_of_int (int j) = Some fj"
    and b: "b = max float_0_1 (float_sub 1 (float_mul fj float_0_1))"
    by (auto simp: position_score_def split: option.splits)
  from float_of_int_mono[OF fi fj assms(3)] float_0_1_bounds
  have "fi * float_0_1 \<le> fj * float_0_1" by (intro mult_right_mono) simp_all
  then have "float_mul fi float_0_1 \<le> float_mul fj float_0_1"
    unfolding float_mul_def by (rule round_double_mono)
  then have "1 - float_mul fj float_0_1 \<le> 1 - float_mul fi float_0_1" by simp
  then have "float_sub 1 (float_mul fj float_0_1) \<le> float_sub 1 (float_mul fi float_0_1)"
    unfolding float_sub_def by (rule round_double_mono)
  with a b show ?thesis by auto
qed

text \<open>The scores Python computes for some positions.\<close>

lemma position_score_eval:
  assumes "round_double (of_nat i) = fi" and "0 \<le> fi" and "fi < 2 ^ 1024"
    and "round_double (fi * float_0_1) = p" and "round_double (1 - p) = d"
  shows "position_score i = Some (max float_0_1 d)"
  using assms by (simp add: position_score_def float_of_int_def float_mul_def float_sub_def)

lemma position_score_0: "position_score 0 = Some 1"
  using position_score_eval[of 0 0 0 1] float_0_1_bounds by (simp add: max_def)

lemma position_score_1: "position_score 1 = Some (8106479329266893 / 9007199254740992)"
proof -
  have p: "round_double (1 * float_0_1) = 3602879701896397 / 36028797018963968"
    unfolding float_0_1_value
    by (subst round_double_normal[of "- 4"]) (simp_all add: round_half_even_def)
  have d: "round_double (1 - 3602879701896397 / 36028797018963968)
             = 8106479329266893 / 9007199254740992"
    by (subst round_double_normal[of "- 1"]) (simp_all add: round_half_even_def)
  from position_score_eval[of 1 1, OF _ _ _ p d] show ?thesis
    by (simp add: float_0_1_value)
qed

lemma position_score_6: "position_score 6 = Some (900719925474099 / 2251799813685248)"
proof -
  have f: "round_double (of_nat 6) = 6"
    by (subst round_double_normal[of 2]) (simp_all add: round_half_even_def)
  have p: "round_double (6 * float_0_1) = 5404319552844596 / 9007199254740992"
    unfolding float_0_1_value
    by (subst round_double_normal[of "- 1"]) (simp_all add: round_half_even_def)
  have d: "round_double (1 - 5404319552844596 / 9007199254740992)
             = 900719925474099 / 2251799813685248"
    by (subst round_double_normal[of "- 2"]) (simp_all add: round_half_even_def)
  from position_score_eval[of 6 6, OF f _ _ p d] show ?thesis
    by (simp add: float_0_1_value)
qed


lemma position_score_Suc_0:
  "position_score (Suc 0) = Some (8106479329266893 / 9007199254740992)"
  using position_score_1 by simp

text \<open>
  At position 6 the score Python computes is neither the decimal value \<open>0.4\<close> nor the
  double nearest to it: the product \<open>6 * 0.1\<close> is rounded up before the subtraction.
\<close>

lemma position_score_6_below:
  "position_score 6 \<noteq> Some (2 / 5)" "position_score 6 \<noteq> Some (round_double (2 / 5))"
proof -
  have "round_double (2 / 5) = 3602879701896397 / 9007199254740992"
    by (subst round_double_normal[of "- 2"]) (simp_all add: round_half_even_def)
  then show "position_score 6 \<noteq> Some (2 / 5)" "position_score 6 \<noteq> Some (round_double (2 / 5))"
    by (simp_all add: position_score_6)
qed

lemma make_result_score:
  assumes "make_result i r = Inr sr"
  shows "position_score i = Some (relevance_score sr)"
  using assms by (auto simp: make_result_def split: option.splits if_splits)

text \<open>
  The loop of \<open>get_search_results\<close> started at position \<open>i\<close> with \<open>acc\<close> already built:
  it keeps \<open>acc\<close>, adds one result per item, and the result of the \<open>k\<close>-th remaining item
  has the score of position \<open>i + k\<close>.
\<close>

lemma structure_results_positions:
  "structure_results i raws acc = Inr rs \<Longrightarrow>
     length rs = length acc + length raws \<and> take (length acc) rs = acc \<and>
     (\<forall>k<length raws. position_score (i + k) = Some (relevance_score (rs ! (length acc + k))))"
proof (induction raws arbitrary: i acc)
  case Nil
  then show ?case by simp
next
  case (Cons r raws)
  from Cons.prems obtain sr where sr: "make_result i r = Inr sr"
    and rest: "structure_results (Suc i) raws (acc @ [sr]) = Inr rs"
    by (auto split: sum.splits)
  from Cons.IH[OF rest] have len: "length rs = length acc + 1 + length raws"
    and pre: "take (length acc + 1) rs = acc @ [sr]"
    and sc: "\<forall>k<length raws. position_score (Suc i + k)
                         = Some (relevance_score (rs ! (length acc + 1 + k)))"
    by simp_all
  have "take (length acc) rs = take (length acc) (take (length acc + 1) rs)"
    by simp
  with pre have pre': "take (length acc) rs = acc"
    by simp
  have "rs ! length acc = take (length acc + 1) rs ! length acc"
    by simp
  with pre have at: "rs ! length acc = sr"
    by simp
  have "position_score (i + k) = Some (relevance_score (rs ! (length acc + k)))"
    if "k < length (r # raws)" for k
  proof (cases k)
    case 0
    with at sr show ?thesis by (simp add: make_result_score)
  next
    case (Suc j)
    with that sc show ?thesis by simp
  qed
  with len pre' show ?case by simp
qed

lemma get_search_results_scores:
  assumes "get_search_results E q num_results use_autoprompt w = (Inr rs, w')"
    and "k < length rs"
  shows "position_score k = Some (relevance_score (rs ! k))"
proof (cases "get_search_results_try E q num_results use_autoprompt w")
  case (Pair res w1)
  show ?thesis
  proof (cases res)
    case (Inl e)
    with Pair assms show ?thesis
      by (auto simp: get_search_results_def split: option.splits)
  next
    case (Inr rs')
    with Pair assms(1) have eq: "rs' = rs" by (simp add: get_search_results_def)
    from Pair Inr eq obtain raws where "structure_results 0 raws [] = Inr rs"
      by (auto simp: get_search_results_try_def split: prod.splits sum.splits)
    from structure_results_positions[OF this] assms(2) show ?thesis by simp
  qed
qed

section \<open>A concrete environment\<close>

text \<open>
  An environment in which everything works: the provider answers every search with the
  same two items, the planner proposes three plans, and the executor answers every plan
  with one search and a narrative of one line. The world has no state. Standard output is
  UTF-8 with the error handler \<open>strict\<close>, which accepts no surrogate.
\<close>

definition utf8_strict :: stdout_encoding where
  "utf8_strict = Complete (\<lambda>c. False)"

definition auth_error :: error where
  "auth_error = Raised AuthError (str_of ''invalid API key'')"

definition two_items :: "raw_result list" where
  "two_items =
     [\<lparr>raw_title = Some (str_of ''A''), raw_url = Some (str_of ''a.org''),
       raw_text = Some (str_of ''alpha'')\<rparr>,
      \<lparr>raw_title = Some (str_of ''B''), raw_url = Some (str_of ''b.org''),
       raw_text = Some (str_of ''beta'')\<rparr>]"

definition two_results :: "SearchResult list" where
  "two_results =
     [\<lparr>title = str_of ''A'', url = str_of ''a.org'', content = str_of ''alpha'',
       relevance_score = 1, search_intent = INITIAL_EXPLORATION\<rparr>,
      \<lparr>title = str_of ''B'', url = str_of ''b.org'', content = str_of ''beta'',
       relevance_score = 8106479329266893 / 9007199254740992,
       search_intent = INITIAL_EXPLORATION\<rparr>]"

definition plan_a :: SearchPlan where
  "plan_a = \<lparr>intent = DEEP_DIVE, plan_query = str_of ''q1'', reasoning = str_of ''r1''\<rparr>"

definition plan_b :: SearchPlan where
  "plan_b = \<lparr>intent = FACT_CHECKING, plan_query = str_of ''q2'', reasoning = str_of ''r2''\<rparr>"

definition plan_c :: SearchPlan where
  "plan_c = \<lparr>intent = SYNTHESIS, plan_query = str_of ''q3'', reasoning = str_of ''r3''\<rparr>"

definition demo_env :: "unit env" where
  "demo_env =
     \<lparr>exa_api_key = Some (str_of ''key''),
      exa_search_and_contents =
        (\<lambda>k q n a w. (case k of None \<Rightarrow> Inl auth_error | Some _ \<Rightarrow> Inr two_items, w)),
      llm_plan_searches = (\<lambda>c w. (Inr [plan_a, plan_b, plan_c], w)),
      llm_execute_search =
        (\<lambda>p c w. (Inr \<lparr>tools = Some [GetSearchResults (plan_query p) 2 True],
                         narrative = Some (str_of ''A finding'')\<rparr>, w)),
      llm_synthesize_research = (\<lambda>c w. (Inr (str_of ''report''), w)),
      stdout = utf8_strict\<rparr>"

lemma demo_search:
  "get_search_results demo_env (str_of ''q'') 2 True () = (Inr two_results, ())"
  by (simp add: get_search_results_def get_search_results_try_def demo_env_def
        two_items_def two_results_def make_result_def str_of_def
        position_score_0 position_score_Suc_0)

text \<open>
  Claim C8. Whatever the provider answers, the result at zero-based position \<open>i\<close> of the
  list \<open>get_search_results\<close> returns has the relevance score Python computes for
  \<open>max(0.1, 1.0 - i * 0.1)\<close>: with \<open>fi\<close> the double \<open>float(i)\<close> and \<open>0.1\<close> the double
  nearest to one tenth, the larger of \<open>0.1\<close> and of the rounded difference of \<open>1.0\<close> and
  the rounded product of \<open>fi\<close> and \<open>0.1\<close>. The score is at least the double \<open>0.1\<close>, and no
  later result of the same call has a higher score.
\<close>

theorem relevance_by_position:
  assumes "get_search_results E q num_results use_autoprompt w = (Inr rs, w')"
    and "i < length rs"
  shows "(\<exists>fi. float_of_int (int i) = Some fi
            \<and> relevance_score (rs ! i) = max float_0_1 (float_sub 1 (float_mul fi float_0_1)))
         \<and> float_0_1 \<le> relevance_score (rs ! i)
         \<and> (\<forall>j. i \<le> j \<and> j < length rs
                \<longrightarrow> relevance_score (rs ! j) \<le> relevance_score (rs ! i))"
proof -
  note sc = get_search_results_scores[OF assms(1)]
  from sc[OF assms(2)]
  have "\<exists>fi. float_of_int (int i) = Some fi
            \<and> relevance_score (rs ! i) = max float_0_1 (float_sub 1 (float_mul fi float_0_1))"
    by (auto simp: position_score_def split: option.splits)
  moreover have "float_0_1 \<le> relevance_score (rs ! i)"
    using sc[OF assms(2)] by (rule position_score_range)
  moreover have "relevance_score (rs ! j) \<le> relevance_score (rs ! i)"
    if "i \<le> j" "j < length rs" for j
    using sc[OF assms(2)] sc[OF that(2)] that(1) by (rule position_score_antimono)
  ultimately show ?thesis by blast
qed

theorem relevance_by_position_witness:
  "get_search_results demo_env (str_of ''q'') 2 True () = (Inr two_results, ())
   \<and> 1 < length two_results
   \<and> relevance_score (two_results ! 1) = 8106479329266893 / 9007199254740992
   \<and> float_0_1 \<le> relevance_score (two_results ! 1)
   \<and> relevance_score (two_results ! 1) \<le> relevance_score (two_results ! 0)"
  using relevance_by_position[OF demo_search, of 0] relevance_by_position[OF demo_search, of 1]
    demo_search
  by (simp add: two_results_def)


section \<open>Runs\<close>

lemma py_join_scalar:
  "scalar_text sep \<Longrightarrow> \<forall>x\<in>set xs. scalar_text x \<Longrightarrow> scalar_text (py_join sep xs)"
  by (induction sep xs rule: py_join.induct) simp_all


lemma variable_lines_scalar:
  "scalar_text (line_269 q) \<longleftrightarrow> scalar_text q"
  "scalar_text (line_284 plan) \<longleftrightarrow> scalar_text (plan_query plan)"
  "scalar_text (line_285 plan) \<longleftrightarrow> scalar_text (reasoning plan)"
  "scalar_text (line_246 c) \<longleftrightarrow> scalar_text (query c)"
  "scalar_text (line_248 c) \<longleftrightarrow> scalar_text (py_join [10] (key_findings c))"
  "scalar_text (line_78 e) \<longleftrightarrow> scalar_text (error_text e)"
  "scalar_text (line_301 e) \<longleftrightarrow> scalar_text (error_text e)"
  "scalar_text (line_313 e) \<longleftrightarrow> scalar_text (error_text e)"
  by (simp_all add: line_269_def line_284_def line_285_def line_246_def line_248_def
        line_78_def line_301_def line_313_def scalar_ascii is_surrogate_def)

lemma banner_iff:
  "print_all E [line_269 q, line_270] = None \<longleftrightarrow> py_print E (line_269 q) = None"
proof (cases "py_print E (line_269 q)")
  case None
  from banner_printed(1)[OF None] have "py_print E line_270 = None" by (rule fixed_prints)
  with None show ?thesis by simp
next
  case (Some e)
  then show ?thesis by simp
qed

lemma initial_state_simps:
  "ctx (initial_state q w) = new_context q"
  "world (initial_state q w) = w"
  "trace (initial_state q w) = []"
  by (simp_all add: initial_state_def)

text \<open>What follows the loop, on a stream that accepts the first line of the run.\<close>

lemma synthesize_and_return_ctx: "ctx (snd (synthesize_and_return E s)) = ctx s"
  by (simp add: synthesize_and_return_def split: option.splits prod.splits sum.splits)

lemma synthesize_and_return_trace:
  assumes "is_complete (stdout E)"
  shows "trace (snd (synthesize_and_return E s)) = trace s @ [SynthesizeCall (ctx s)]"
  using fixed_prints(11)[OF assms]
  by (simp add: synthesize_and_return_def split: option.splits prod.splits sum.splits)

lemma synthesize_and_return_result:
  assumes "fst (synthesize_and_return E s) = Inr r"
  shows "research_context r = ctx s" and "iterations r = search_iterations (ctx s)"
  using assms
  by (auto simp: synthesize_and_return_def split: option.splits prod.splits sum.splits)

text \<open>The three ways a run ends.\<close>

lemma run_cases [case_names unprinted aborted synthesized]:
  obtains
    e where "py_print E (line_269 q) = Some e"
      "run_deep_research_agent E q m w = (Inl e, initial_state q w)"
  | e s where "py_print E (line_269 q) = None"
      "research_loop E m (initial_state q w) = (Some e, s)"
      "run_deep_research_agent E q m w = (Inl e, s)"
  | s where "py_print E (line_269 q) = None"
      "research_loop E m (initial_state q w) = (None, s)"
      "run_deep_research_agent E q m w = synthesize_and_return E s"
proof (cases "py_print E (line_269 q)")
  case (Some e)
  then have "run_deep_research_agent E q m w = (Inl e, initial_state q w)"
    by (simp add: run_deep_research_agent_def)
  with Some show ?thesis by (rule that(1))
next
  case None
  then have b: "print_all E [line_269 q, line_270] = None" by (simp only: banner_iff)
  show ?thesis
  proof (cases "research_loop E m (initial_state q w)")
    case (Pair r s)
    show ?thesis
    proof (cases r)
      case r: None
      with Pair b have "run_deep_research_agent E q m w = synthesize_and_return E s"
        by (simp add: run_deep_research_agent_def)
      with None Pair r show ?thesis using that(3) by simp
    next
      case (Some e)
      with Pair b have "run_deep_research_agent E q m w = (Inl e, s)"
        by (simp add: run_deep_research_agent_def)
      with None Pair Some show ?thesis using that(2) by simp
    qed
  qed
qed

lemma run_ctx:
  "ctx (snd (run_deep_research_agent E q m w))
     = (if py_print E (line_269 q) = None
        then ctx (snd (research_loop E m (initial_state q w))) else new_context q)"
  by (cases rule: run_cases[of E q m w])
     (simp_all add: initial_state_simps synthesize_and_return_ctx)

lemma run_loop_events:
  "filter loop_event (trace (snd (run_deep_research_agent E q m w)))
     = (if py_print E (line_269 q) = None
        then filter loop_event (trace (snd (research_loop E m (initial_state q w)))) else [])"
proof (cases rule: run_cases[of E q m w])
  case (unprinted e)
  then show ?thesis by (simp add: initial_state_simps)
next
  case (aborted e s)
  then show ?thesis by simp
next
  case (synthesized s)
  from banner_printed(1)[OF synthesized(1)] synthesized show ?thesis
    by (simp add: synthesize_and_return_trace)
qed

lemma run_returns:
  assumes "fst (run_deep_research_agent E q m w) = Inr r"
  shows "research_context r = ctx (snd (run_deep_research_agent E q m w))"
    and "iterations r = search_iterations (ctx (snd (run_deep_research_agent E q m w)))"
proof -
  have "research_context r = ctx (snd (run_deep_research_agent E q m w))
        \<and> iterations r = search_iterations (ctx (snd (run_deep_research_agent E q m w)))"
  proof (cases rule: run_cases[of E q m w])
    case (unprinted e)
    with assms show ?thesis by simp
  next
    case (aborted e s)
    with assms show ?thesis by simp
  next
    case (synthesized s)
    with assms synthesize_and_return_result[of E s r] show ?thesis
      by (simp add: synthesize_and_return_ctx)
  qed
  then show "research_context r = ctx (snd (run_deep_research_agent E q m w))"
    and "iterations r = search_iterations (ctx (snd (run_deep_research_agent E q m w)))"
    by simp_all
qed

section \<open>An environment without searches\<close>

text \<open>
  The planner proposes one plan per round; the executor calls no tool and answers with
  two lines, each of which is a finding. The stop test holds at the end of round 3.
\<close>

definition talk_narrative :: pystr where
  "talk_narrative = str_of '' we discovered y '' @ [10] @ str_of ''A Finding''"

definition talk_env :: "unit env" where
  "talk_env =
     \<lparr>exa_api_key = None,
      exa_search_and_contents = (\<lambda>k q n a w. (Inl auth_error, w)),
      llm_plan_searches = (\<lambda>c w. (Inr [plan_a], w)),
      llm_execute_search =
        (\<lambda>p c w. (Inr \<lparr>tools = None,
                         narrative = Some talk_narrative\<rparr>, w)),
      llm_synthesize_research = (\<lambda>c w. (Inr (str_of ''report''), w)),
      stdout = utf8_strict\<rparr>"

definition talk_ctx :: "int \<Rightarrow> pystr list \<Rightarrow> ResearchContext" where
  "talk_ctx n kf =
     \<lparr>query = str_of ''q'', search_history = [], key_findings = kf,
      unanswered_questions = [], search_iterations = n\<rparr>"

definition talk_pair :: "pystr list" where
  "talk_pair = [str_of ''we discovered y'', str_of ''A Finding'']"

lemma talk_print: "scalar_text s \<Longrightarrow> py_print talk_env s = None"
  by (rule py_print_scalar) (simp_all add: talk_env_def utf8_strict_def)

lemma plan_a_lines:
  "scalar_text (line_284 plan_a)" "scalar_text (line_285 plan_a)"
  by (simp_all add: variable_lines_scalar plan_a_def scalar_ascii)


section \<open>Extraction of findings\<close>

text \<open>
  Claim C9 as it is worded, for comparison with \<open>extract_findings\<close>: each of the three
  tests is made on the line after trimming.
\<close>

definition claimed_findings :: "pystr \<Rightarrow> pystr list" where
  "claimed_findings text =
     map py_strip
       (filter (\<lambda>line. py_strip line \<noteq> [] \<and> \<not> startswith (py_strip line) marker
                  \<and> (py_in (str_of ''finding'') (py_lower (py_strip line))
                     \<or> py_in (str_of ''discovered'') (py_lower (py_strip line))))
          (py_split_lines text))"

lemma scan_lines_filter:
  "scan_lines ls kf =
     kf @ map py_strip
            (filter (\<lambda>line. py_strip line \<noteq> [] \<and> \<not> startswith line marker
                       \<and> (py_in (str_of ''finding'') (py_lower line)
                          \<or> py_in (str_of ''discovered'') (py_lower line))) ls)"
  by (induction ls arbitrary: kf) simp_all

lemma py_strip_Nil: "py_strip [] = []"
  by (simp add: py_strip_def)

lemma py_split_lines_Nil: "py_split_lines [] = [[]]"
  by (simp add: py_split_lines_def)

lemma extract_findings_filter:
  "extract_findings narr kf =
     kf @ (case narr of
             None \<Rightarrow> []
           | Some text \<Rightarrow>
               map py_strip
                 (filter (\<lambda>line. py_strip line \<noteq> [] \<and> \<not> startswith line marker
                            \<and> (py_in (str_of ''finding'') (py_lower line)
                               \<or> py_in (str_of ''discovered'') (py_lower line)))
                    (py_split_lines text)))"
  by (simp add: extract_findings_def scan_lines_filter py_strip_Nil py_split_lines_Nil
        split: option.splits)

text \<open>
  When \<open>process_response\<close> ends normally, the findings it leaves are those of the
  extraction: the tool calls before it do not touch \<open>key_findings\<close>.
\<close>

lemma process_response_findings:
  assumes "fst (process_response E plan resp s) = None"
  shows "key_findings (ctx (snd (process_response E plan resp s)))
     = extract_findings (narrative resp) (key_findings (ctx s))"
proof (cases rule: process_response_cases[of E plan resp s])
  case (raised e s1)
  with assms show ?thesis by simp
next
  case (returned s1)
  then show ?thesis by (simp add: run_tools_findings)
qed

text \<open>When it ends with an exception, the findings are as they were.\<close>

lemma process_response_findings_raised:
  assumes "fst (process_response E plan resp s) = Some e"
  shows "key_findings (ctx (snd (process_response E plan resp s))) = key_findings (ctx s)"
proof (cases rule: process_response_cases[of E plan resp s])
  case (raised e s1)
  with run_tools_findings[of E "intent plan" "the (tools resp)" s] show ?thesis by simp
next
  case (returned s1)
  with assms show ?thesis by simp
qed

lemma demo_print: "scalar_text s \<Longrightarrow> py_print demo_env s = None"
  by (rule py_print_scalar) (simp_all add: demo_env_def utf8_strict_def)

lemma demo_search_any:
  "get_search_results demo_env q 2 True () = (Inr two_results, ())"
  by (simp add: get_search_results_def get_search_results_try_def demo_env_def
        two_items_def two_results_def make_result_def str_of_def
        position_score_0 position_score_Suc_0)

definition two_results_as :: "SearchIntent \<Rightarrow> SearchResult list" where
  "two_results_as p =
     [\<lparr>title = str_of ''A'', url = str_of ''a.org'', content = str_of ''alpha'',
       relevance_score = 1, search_intent = p\<rparr>,
      \<lparr>title = str_of ''B'', url = str_of ''b.org'', content = str_of ''beta'',
       relevance_score = 8106479329266893 / 9007199254740992, search_intent = p\<rparr>]"

definition demo_response :: "SearchPlan \<Rightarrow> exec_response" where
  "demo_response p = \<lparr>tools = Some [GetSearchResults (plan_query p) 2 True],
                       narrative = Some (str_of ''A finding'')\<rparr>"

lemma demo_extract: "extract_findings (Some (str_of ''A finding'')) kf = kf @ [str_of ''A finding'']"
  by (simp add: extract_findings_filter py_split_lines_def py_strip_def
        py_isspace_def startswith_def marker_def py_lower_def py_lower_cp_def str_of_def)

lemma demo_process_response:
  "process_response demo_env plan (demo_response plan)
       \<lparr>ctx = c, world = (), trace = tr\<rparr>
     = (None,
        \<lparr>ctx = c\<lparr>search_history := search_history c @ two_results_as (intent plan),
                 key_findings := key_findings c @ [str_of ''A finding'']\<rparr>,
         world = (),
         trace = tr @ [ToolCall (GetSearchResults (plan_query plan) 2 True)]\<rparr>)"
  by (simp add: process_response_def demo_response_def run_tool_def tool_call_def
        demo_search_any demo_print fixed_lines_scalar extract_key_findings_def demo_extract)
     (simp add: two_results_def two_results_as_def)

text \<open>
  Claim C9, amended. For every answer of the executor, the extraction of findings appends
  to \<open>key_findings\<close>, in order, the trimmed form of exactly those lines of the narrative
  that are non-empty after trimming, do not start with the marker as they stand (before
  trimming), and contain \<open>finding\<close> or \<open>discovered\<close> after lowercasing; with no
  narrative nothing is appended. The tool calls that precede the extraction leave
  \<open>key_findings\<close> alone: when the processing of the answer ends normally, the findings it
  leaves are those the extraction appends to the ones before the answer.
\<close>

theorem findings_extracted:
  "key_findings (ctx (extract_key_findings resp s)) =
     key_findings (ctx s) @
       (case narrative resp of
          None \<Rightarrow> []
        | Some text \<Rightarrow>
            map py_strip
              (filter (\<lambda>line. py_strip line \<noteq> [] \<and> \<not> startswith line marker
                         \<and> (py_in (str_of ''finding'') (py_lower line)
                            \<or> py_in (str_of ''discovered'') (py_lower line)))
                 (py_split_lines text)))
   \<and> (fst (process_response E plan resp s) = None \<longrightarrow>
        key_findings (ctx (snd (process_response E plan resp s))) =
          key_findings (ctx s) @
            (case narrative resp of
               None \<Rightarrow> []
             | Some text \<Rightarrow>
                 map py_strip
                   (filter (\<lambda>line. py_strip line \<noteq> [] \<and> \<not> startswith line marker
                              \<and> (py_in (str_of ''finding'') (py_lower line)
                                 \<or> py_in (str_of ''discovered'') (py_lower line)))
                      (py_split_lines text))))"
  using extract_findings_filter[of "narrative resp" "key_findings (ctx s)"]
  by (simp add: process_response_findings)

theorem findings_extracted_witness:
  "fst (process_response demo_env plan_a (demo_response plan_a)
          \<lparr>ctx = new_context (str_of ''q''), world = (), trace = []\<rparr>) = None
   \<and> key_findings (ctx (snd (process_response demo_env plan_a (demo_response plan_a)
          \<lparr>ctx = new_context (str_of ''q''), world = (), trace = []\<rparr>)))
       = [str_of ''A finding'']
   \<and> py_split_lines (str_of ''A finding'') = [str_of ''A finding'']"
  using findings_extracted[of "demo_response plan_a"
          "\<lparr>ctx = new_context (str_of ''q''), world = (), trace = []\<rparr>" demo_env plan_a]
  by (simp add: demo_process_response new_context_def)
     (simp add: py_split_lines_def str_of_def)

text \<open>
  The claim as worded fails on a line that starts with a space followed by the marker:
  the program keeps it, trimmed, where the claim excludes it.
\<close>

theorem findings_counterexample:
  "extract_findings (Some ([32, 128269, 32] @ str_of ''finding'')) []
     = [[128269, 32] @ str_of ''finding'']
   \<and> claimed_findings ([32, 128269, 32] @ str_of ''finding'') = []"
  by (simp add: extract_findings_def claimed_findings_def py_split_lines_def py_strip_def
        py_isspace_def startswith_def marker_def py_lower_def py_lower_cp_def str_of_def)


section \<open>The stop test\<close>

lemma talk_extract:
  "extract_findings (Some talk_narrative) kf = kf @ talk_pair"
  by (simp add: extract_findings_filter talk_narrative_def py_split_lines_def py_strip_def talk_pair_def
        py_isspace_def startswith_def marker_def py_lower_def py_lower_cp_def str_of_def)

lemma talk_env_simps:
  "llm_plan_searches talk_env c w = (Inr [plan_a], w)"
  "llm_execute_search talk_env p c w = (Inr \<lparr>tools = None, narrative = Some talk_narrative\<rparr>, w)"
  "llm_synthesize_research talk_env c w = (Inr (str_of ''report''), w)"
  by (simp_all add: talk_env_def)

lemma talk_iteration:
  "iteration talk_env \<lparr>ctx = talk_ctx n kf, world = (), trace = tr\<rparr>
     = (if 5 \<le> length (kf @ talk_pair) \<and> 3 \<le> n + 1 then Leave else Next,
        \<lparr>ctx = talk_ctx (n + 1) (kf @ talk_pair), world = (),
          trace = tr @ [PlanCall (talk_ctx (n + 1) kf),
                        ExecuteCall plan_a (talk_ctx (n + 1) kf),
                        StopTest (talk_ctx (n + 1) (kf @ talk_pair))]\<rparr>)"
proof -
  have pe: "plan_and_execute talk_env \<lparr>ctx = talk_ctx (n + 1) kf, world = (), trace = tr\<rparr>
     = (None, \<lparr>ctx = talk_ctx (n + 1) (kf @ talk_pair), world = (),
          trace = tr @ [PlanCall (talk_ctx (n + 1) kf),
                        ExecuteCall plan_a (talk_ctx (n + 1) kf)]\<rparr>)"
    by (simp add: plan_and_execute_def execute_plan_def process_response_def talk_env_simps
          talk_print fixed_lines_scalar plan_a_lines extract_key_findings_def talk_extract)
       (simp add: talk_ctx_def)
  have c: "(talk_ctx n kf)\<lparr>search_iterations := search_iterations (talk_ctx n kf) + 1\<rparr>
             = talk_ctx (n + 1) kf"
    by (simp add: talk_ctx_def)
  show ?thesis
    by (simp add: iteration_def c pe talk_print fixed_lines_scalar sufficient_def)
       (simp add: talk_ctx_def)
qed

lemma talk_loop:
  "research_loop talk_env 5 (initial_state (str_of ''q'') ())
     = (None,
        \<lparr>ctx = talk_ctx 3 (talk_pair @ talk_pair @ talk_pair), world = (),
          trace = [PlanCall (talk_ctx 1 []),
                   ExecuteCall plan_a (talk_ctx 1 []),
                   StopTest (talk_ctx 1 talk_pair),
                   PlanCall (talk_ctx 2 talk_pair),
                   ExecuteCall plan_a (talk_ctx 2 talk_pair),
                   StopTest (talk_ctx 2 (talk_pair @ talk_pair)),
                   PlanCall (talk_ctx 3 (talk_pair @ talk_pair)),
                   ExecuteCall plan_a (talk_ctx 3 (talk_pair @ talk_pair)),
                   StopTest (talk_ctx 3 (talk_pair @ talk_pair @ talk_pair))]\<rparr>)"
proof -
  have s0: "initial_state (str_of ''q'') () = \<lparr>ctx = talk_ctx 0 [], world = (), trace = []\<rparr>"
    by (simp add: initial_state_def new_context_def talk_ctx_def)
  have n: "search_iterations (talk_ctx n kf) = n" for n kf
    by (simp add: talk_ctx_def)
  have len: "length talk_pair = 2" by (simp add: talk_pair_def)
  show ?thesis
    unfolding s0
    apply (subst research_loop.simps, simp add: talk_iteration n len)
    apply (subst research_loop.simps, simp add: talk_iteration n len)
    apply (subst research_loop.simps, simp add: talk_iteration n len)
    done
qed

lemma talk_banner: "py_print talk_env (line_269 (str_of ''q'')) = None"
  by (simp add: talk_print variable_lines_scalar scalar_ascii)

lemma talk_pair_scalar: "\<forall>x\<in>set talk_pair. scalar_text x"
  by (simp add: talk_pair_def scalar_ascii)

lemma talk_synthesize:
  assumes "\<forall>x\<in>set kf. scalar_text x"
  shows "synthesize_and_return talk_env \<lparr>ctx = talk_ctx n kf, world = (), trace = tr\<rparr>
     = (Inr \<lparr>final_report = str_of ''report'', research_context = talk_ctx n kf,
              iterations = n\<rparr>,
        \<lparr>ctx = talk_ctx n kf, world = (), trace = tr @ [SynthesizeCall (talk_ctx n kf)]\<rparr>)"
proof -
  have "scalar_text (py_join [10] kf)"
    using assms by (intro py_join_scalar) (simp_all add: is_surrogate_def)
  then have "scalar_text (line_248 (talk_ctx n kf))" "scalar_text (line_246 (talk_ctx n kf))"
    by (simp_all add: variable_lines_scalar talk_ctx_def scalar_ascii)
  then show ?thesis
    by (simp add: synthesize_and_return_def synthesize_research_def talk_env_simps
          talk_print fixed_lines_scalar)
       (simp add: talk_ctx_def)
qed


lemma talk_run:
  "run_deep_research_agent talk_env (str_of ''q'') 5 ()
     = (Inr \<lparr>final_report = str_of ''report'',
              research_context = talk_ctx 3 (talk_pair @ talk_pair @ talk_pair),
              iterations = 3\<rparr>,
        \<lparr>ctx = talk_ctx 3 (talk_pair @ talk_pair @ talk_pair), world = (),
          trace = [PlanCall (talk_ctx 1 []),
                   ExecuteCall plan_a (talk_ctx 1 []),
                   StopTest (talk_ctx 1 talk_pair),
                   PlanCall (talk_ctx 2 talk_pair),
                   ExecuteCall plan_a (talk_ctx 2 talk_pair),
                   StopTest (talk_ctx 2 (talk_pair @ talk_pair)),
                   PlanCall (talk_ctx 3 (talk_pair @ talk_pair)),
                   ExecuteCall plan_a (talk_ctx 3 (talk_pair @ talk_pair)),
                   StopTest (talk_ctx 3 (talk_pair @ talk_pair @ talk_pair)),
                   SynthesizeCall (talk_ctx 3 (talk_pair @ talk_pair @ talk_pair))]\<rparr>)"
proof -
  have "\<forall>x\<in>set (talk_pair @ talk_pair @ talk_pair). scalar_text x"
    using talk_pair_scalar by simp
  note syn = talk_synthesize[OF this]
  have b: "print_all talk_env [line_269 (str_of ''q''), line_270] = None"
    using talk_banner by (simp only: banner_iff)
  show ?thesis
    unfolding run_deep_research_agent_def b talk_loop by (simp add: syn)
qed

lemma talk_run_state:
  "snd (run_deep_research_agent talk_env (str_of ''q'') 5 ())
     = \<lparr>ctx = talk_ctx 3 (talk_pair @ talk_pair @ talk_pair), world = (),
        trace = [PlanCall (talk_ctx 1 []),
                 ExecuteCall plan_a (talk_ctx 1 []),
                 StopTest (talk_ctx 1 talk_pair),
                 PlanCall (talk_ctx 2 talk_pair),
                 ExecuteCall plan_a (talk_ctx 2 talk_pair),
                 StopTest (talk_ctx 2 (talk_pair @ talk_pair)),
                 PlanCall (talk_ctx 3 (talk_pair @ talk_pair)),
                 ExecuteCall plan_a (talk_ctx 3 (talk_pair @ talk_pair)),
                 StopTest (talk_ctx 3 (talk_pair @ talk_pair @ talk_pair)),
                 SynthesizeCall (talk_ctx 3 (talk_pair @ talk_pair @ talk_pair))]\<rparr>"
  by (simp add: talk_run)

text \<open>
  A stop test in the trace of the loop started in \<open>s\<close> was either made before \<open>s\<close>, or
  in a later round than the one \<open>s\<close> is in; in the second case the loop does not end
  with a smaller counter, and below \<open>max_iterations\<close> it ends with this very counter
  exactly when the test held.
\<close>

lemma iteration_stop_tests:
  assumes "StopTest c \<in> set (filter loop_event (trace (snd (iteration E s))))"
  shows "StopTest c \<in> set (filter loop_event (trace s))
         \<or> (c = ctx (snd (iteration E s)) \<and> (fst (iteration E s) = Next \<longleftrightarrow> \<not> sufficient c))"
proof -
  from iteration_trace[of E s] consider
    (a) "filter loop_event (trace (snd (iteration E s))) = filter loop_event (trace s)"
  | (b) "filter loop_event (trace (snd (iteration E s)))
          = filter loop_event (trace s) @ [PlanCall (counted (ctx s))]"
  | (c) "filter loop_event (trace (snd (iteration E s)))
          = filter loop_event (trace s)
            @ [PlanCall (counted (ctx s)), StopTest (ctx (snd (iteration E s)))]"
        "fst (iteration E s) = Next \<longleftrightarrow> \<not> sufficient (ctx (snd (iteration E s)))"
    by blast
  then show ?thesis
  proof cases
    case a
    from assms[unfolded a] show ?thesis by simp
  next
    case b
    from assms[unfolded b] show ?thesis by simp
  next
    case c
    from assms[unfolded c(1)] c(2) show ?thesis by auto
  qed
qed

lemma research_loop_stop_tests:
  "StopTest c \<in> set (filter loop_event (trace (snd (research_loop E m s)))) \<Longrightarrow>
     StopTest c \<in> set (filter loop_event (trace s)) \<or>
     (search_iterations (ctx s) < search_iterations c \<and>
      search_iterations c \<le> search_iterations (ctx (snd (research_loop E m s))) \<and>
      (search_iterations c < m \<longrightarrow>
         (search_iterations (ctx (snd (research_loop E m s))) = search_iterations c
            \<longleftrightarrow> sufficient c)))"
proof (induction s rule: research_loop_induct[of m E])
  case (at_max s)
  then show ?case by simp
next
  case (ended s fl s')
  from ended(2) have sn: "snd (iteration E s) = s'" "fst (iteration E s) = fl" by simp_all
  from ended(6) ended(4) have "StopTest c \<in> set (filter loop_event (trace (snd (iteration E s))))"
    by (simp add: sn)
  from iteration_stop_tests[OF this] ended(3)
  have "StopTest c \<in> set (filter loop_event (trace s)) \<or> (c = ctx s' \<and> sufficient (ctx s'))"
    unfolding sn by auto
  then show ?case
  proof
    assume "c = ctx s' \<and> sufficient (ctx s')"
    with ended(2,4) iteration_iterations[of E s] show ?thesis by simp
  qed simp
next
  case (continued s s')
  from continued(2) have sn: "snd (iteration E s) = s'" "fst (iteration E s) = Next" by simp_all
  from continued(2) iteration_iterations[of E s]
  have it: "search_iterations (ctx s') = search_iterations (ctx s) + 1" by simp
  from continued(5) continued(3) continued(4)
  have "StopTest c \<in> set (filter loop_event (trace s')) \<or>
     (search_iterations (ctx s') < search_iterations c \<and>
      search_iterations c \<le> search_iterations (ctx (snd (research_loop E m s))) \<and>
      (search_iterations c < m \<longrightarrow>
         (search_iterations (ctx (snd (research_loop E m s))) = search_iterations c
            \<longleftrightarrow> sufficient c)))" by simp
  then show ?case
  proof
    assume "StopTest c \<in> set (filter loop_event (trace s'))"
    then have "StopTest c \<in> set (filter loop_event (trace (snd (iteration E s))))"
      by (simp add: sn)
    from iteration_stop_tests[OF this]
    have "StopTest c \<in> set (filter loop_event (trace s)) \<or> (c = ctx s' \<and> \<not> sufficient (ctx s'))"
      unfolding sn by auto
    then show ?thesis
    proof
      assume c: "c = ctx s' \<and> \<not> sufficient (ctx s')"
      have "search_iterations c < search_iterations (ctx (snd (research_loop E m s)))"
        if "search_iterations c < m"
        using research_loop_iterations_gt[of s' m E] that c continued(3) by simp
      moreover have "search_iterations c \<le> search_iterations (ctx (snd (research_loop E m s)))"
        using research_loop_iterations_ge[of s' E m] c continued(3) by simp
      ultimately show ?thesis using c it by auto
    qed simp
  next
    assume "search_iterations (ctx s') < search_iterations c \<and>
      search_iterations c \<le> search_iterations (ctx (snd (research_loop E m s))) \<and>
      (search_iterations c < m \<longrightarrow>
         (search_iterations (ctx (snd (research_loop E m s))) = search_iterations c
            \<longleftrightarrow> sufficient c))"
    with it show ?thesis by simp
  qed
qed

text \<open>
  Claim C1. Take any run and any evaluation of the stop test in it, made at the end of a
  round on the context \<open>c\<close>, with \<open>max_iterations\<close> not yet reached. The run ends with
  the counter of that round (that is, the loop stops there) exactly when \<open>c\<close> has at
  least 5 key findings and its counter is at least 3. In particular, before the third
  round the loop goes on to a further round, however many findings there are.
\<close>

theorem stop_test_decides:
  assumes "StopTest c \<in> set (trace (snd (run_deep_research_agent E q max_iterations w)))"
    and "search_iterations c < max_iterations"
  shows "(search_iterations (ctx (snd (run_deep_research_agent E q max_iterations w)))
            = search_iterations c
          \<longleftrightarrow> 5 \<le> length (key_findings c) \<and> 3 \<le> search_iterations c)
       \<and> (search_iterations c < 3 \<longrightarrow>
            search_iterations c
              < search_iterations (ctx (snd (run_deep_research_agent E q max_iterations w))))"
proof -
  let ?s0 = "initial_state q w"
  let ?sL = "snd (research_loop E max_iterations ?s0)"
  from assms(1)
  have "StopTest c \<in> set (filter loop_event
                            (trace (snd (run_deep_research_agent E q max_iterations w))))"
    by simp
  then have banner: "py_print E (line_269 q) = None"
    and "StopTest c \<in> set (filter loop_event (trace ?sL))"
    unfolding run_loop_events by (simp_all split: if_splits)
  from research_loop_stop_tests[OF this(2)] assms(2)
  have eq: "search_iterations (ctx ?sL) = search_iterations c \<longleftrightarrow> sufficient c"
    and le: "search_iterations c \<le> search_iterations (ctx ?sL)"
    by (simp_all add: initial_state_simps)
  from eq banner have first:
    "search_iterations (ctx (snd (run_deep_research_agent E q max_iterations w)))
       = search_iterations c
     \<longleftrightarrow> 5 \<le> length (key_findings c) \<and> 3 \<le> search_iterations c"
    by (simp add: run_ctx sufficient_def)
  have "search_iterations c
          < search_iterations (ctx (snd (run_deep_research_agent E q max_iterations w)))"
    if "search_iterations c < 3"
  proof -
    from that have "\<not> sufficient c" by (simp add: sufficient_def)
    with eq le banner show ?thesis by (simp add: run_ctx)
  qed
  with first show ?thesis by blast
qed

theorem stop_test_decides_witness:
  "StopTest (talk_ctx 3 (talk_pair @ talk_pair @ talk_pair))
     \<in> set (trace (snd (run_deep_research_agent talk_env (str_of ''q'') 5 ())))
   \<and> search_iterations (talk_ctx 3 (talk_pair @ talk_pair @ talk_pair)) < 5
   \<and> search_iterations (ctx (snd (run_deep_research_agent talk_env (str_of ''q'') 5 ()))) = 3
   \<and> 5 \<le> length (key_findings (talk_ctx 3 (talk_pair @ talk_pair @ talk_pair)))
   \<and> StopTest (talk_ctx 1 talk_pair)
     \<in> set (trace (snd (run_deep_research_agent talk_env (str_of ''q'') 5 ())))
   \<and> search_iterations (talk_ctx 1 talk_pair)
       < search_iterations (ctx (snd (run_deep_research_agent talk_env (str_of ''q'') 5 ())))"
  using stop_test_decides[of "talk_ctx 3 (talk_pair @ talk_pair @ talk_pair)" talk_env "str_of ''q''" 5 "()"]
    stop_test_decides[of "talk_ctx 1 talk_pair" talk_env "str_of ''q''" 5 "()"]
  by (simp add: talk_run_state talk_ctx_def talk_pair_def)

section \<open>Planning rounds and the counter\<close>

text \<open>
  Claim C2, amended. For every question and every \<open>max_iterations\<close>, the number of
  planning rounds of the run equals the final \<open>search_iterations\<close> counter, which is at
  most \<open>max_iterations\<close> when that is not negative and 0 when it is; and when the run
  returns, the \<open>iterations\<close> value it returns is that counter.
\<close>

theorem rounds_counted:
  "int (planning_rounds (trace (snd (run_deep_research_agent E q max_iterations w))))
     = search_iterations (ctx (snd (run_deep_research_agent E q max_iterations w)))
   \<and> search_iterations (ctx (snd (run_deep_research_agent E q max_iterations w)))
       \<le> max max_iterations 0
   \<and> (\<forall>r. fst (run_deep_research_agent E q max_iterations w) = Inr r \<longrightarrow>
          iterations r
            = search_iterations (ctx (snd (run_deep_research_agent E q max_iterations w))))"
proof -
  let ?s0 = "initial_state q w"
  let ?sL = "snd (research_loop E max_iterations ?s0)"
  let ?run = "run_deep_research_agent E q max_iterations w"
  have rounds: "int (planning_rounds (trace (snd ?run))) = search_iterations (ctx (snd ?run))"
  proof (cases "py_print E (line_269 q)")
    case None
    then have "is_complete (stdout E)" by (rule banner_printed)
    then have "int (planning_rounds (trace ?sL)) - int (planning_rounds (trace ?s0))
                 = search_iterations (ctx ?sL) - search_iterations (ctx ?s0)"
      by (rule research_loop_planning_rounds)
    then have "int (planning_rounds (trace ?sL)) = search_iterations (ctx ?sL)"
      by (simp add: initial_state_simps planning_rounds_def new_context_def)
    moreover have "planning_rounds (trace (snd ?run)) = planning_rounds (trace ?sL)"
      using planning_rounds_loop_event[of "trace (snd ?run)"]
        planning_rounds_loop_event[of "trace ?sL"] None
      by (simp add: run_loop_events)
    ultimately show ?thesis using None by (simp add: run_ctx)
  next
    case (Some e)
    moreover have "planning_rounds (trace (snd ?run)) = 0"
      using planning_rounds_loop_event[of "trace (snd ?run)"] Some
      by (simp add: run_loop_events planning_rounds_def)
    ultimately show ?thesis by (simp add: run_ctx new_context_def)
  qed
  have "search_iterations (ctx ?sL) \<le> max max_iterations (search_iterations (ctx ?s0))"
    by (rule research_loop_iterations_le)
  then have "search_iterations (ctx ?sL) \<le> max max_iterations 0"
    by (simp add: initial_state_simps new_context_def)
  then have bound: "search_iterations (ctx (snd ?run)) \<le> max max_iterations 0"
    by (simp add: run_ctx new_context_def)
  have "iterations r = search_iterations (ctx (snd ?run))" if "fst ?run = Inr r" for r
    using that by (rule run_returns)
  with rounds bound show ?thesis by blast
qed

theorem rounds_counted_witness:
  "fst (run_deep_research_agent talk_env (str_of ''q'') 5 ())
     = Inr \<lparr>final_report = str_of ''report'',
             research_context = talk_ctx 3 (talk_pair @ talk_pair @ talk_pair),
             iterations = 3\<rparr>
   \<and> planning_rounds (trace (snd (run_deep_research_agent talk_env (str_of ''q'') 5 ()))) = 3
   \<and> search_iterations (ctx (snd (run_deep_research_agent talk_env (str_of ''q'') 5 ()))) = 3"
  using rounds_counted[of talk_env "str_of ''q''" 5 "()"]
  by (simp add: talk_run talk_ctx_def)

text \<open>
  With \<open>max_iterations = -1\<close> the loop body never runs and the run returns
  \<open>iterations = 0\<close>, which exceeds \<open>max_iterations\<close>.
\<close>

lemma demo_env_simps:
  "exa_api_key demo_env = Some (str_of ''key'')"
  "llm_plan_searches demo_env c w = (Inr [plan_a, plan_b, plan_c], w)"
  "llm_execute_search demo_env p c w = (Inr (demo_response p), w)"
  "llm_synthesize_research demo_env c w = (Inr (str_of ''report''), w)"
  by (simp_all add: demo_env_def demo_response_def)

lemma demo_run_negative:
  "run_deep_research_agent demo_env (str_of ''q'') (- 1) ()
     = (Inr \<lparr>final_report = str_of ''report'', research_context = new_context (str_of ''q''),
              iterations = 0\<rparr>,
        \<lparr>ctx = new_context (str_of ''q''), world = (),
          trace = [SynthesizeCall (new_context (str_of ''q''))]\<rparr>)"
proof -
  have "scalar_text (line_246 (new_context (str_of ''q'')))"
    "scalar_text (line_248 (new_context (str_of ''q'')))"
    "scalar_text (line_269 (str_of ''q''))"
    by (simp_all add: variable_lines_scalar new_context_def scalar_ascii)
  note lines = this
  have b: "print_all demo_env [line_269 (str_of ''q''), line_270] = None"
    using lines(3) by (simp only: banner_iff demo_print)
  have l: "research_loop demo_env (- 1) (initial_state (str_of ''q'') ())
             = (None, initial_state (str_of ''q'') ())"
    by (simp add: research_loop.simps initial_state_def new_context_def)
  show ?thesis
    unfolding run_deep_research_agent_def b l
    by (simp add: initial_state_def synthesize_and_return_def synthesize_research_def
          demo_env_simps demo_print fixed_lines_scalar lines)
       (simp add: new_context_def)
qed

theorem rounds_counterexample:
  "fst (run_deep_research_agent demo_env (str_of ''q'') (- 1) ())
     = Inr \<lparr>final_report = str_of ''report'', research_context = new_context (str_of ''q''),
             iterations = 0\<rparr>
   \<and> \<not> (0::int) \<le> - 1"
  by (simp add: demo_run_negative)


section \<open>Findings are trimmed\<close>

text \<open>A string that is not empty and has no white space at either end.\<close>

definition tidy :: "pystr \<Rightarrow> bool" where
  "tidy f \<longleftrightarrow> f \<noteq> [] \<and> \<not> py_isspace (hd f) \<and> \<not> py_isspace (last f)"

lemma py_strip_tidy:
  assumes "py_strip s \<noteq> []"
  shows "tidy (py_strip s)"
proof -
  define t where "t = dropWhile py_isspace s"
  define u where "u = dropWhile py_isspace (rev t)"
  have res: "py_strip s = rev u" by (simp add: py_strip_def t_def u_def)
  with assms have u: "u \<noteq> []" by simp
  then have t: "t \<noteq> []" by (auto simp: u_def)
  from u have "\<not> py_isspace (hd u)" unfolding u_def by (rule hd_dropWhile)
  with u res have l: "\<not> py_isspace (last (py_strip s))" by (simp add: last_rev)
  have "rev t = takeWhile py_isspace (rev t) @ u" by (simp add: u_def)
  with u have "last (rev t) = last u" by (metis last_appendR)
  with t have "last u = hd t" by (simp add: last_rev)
  moreover from t have "\<not> py_isspace (hd t)" unfolding t_def by (rule hd_dropWhile)
  ultimately have "\<not> py_isspace (hd (py_strip s))" using u res by (simp add: hd_rev)
  with l assms show ?thesis by (simp add: tidy_def)
qed

lemma extract_findings_tidy:
  assumes "\<forall>f\<in>set kf. tidy f"
  shows "\<forall>f\<in>set (extract_findings narr kf). tidy f"
  using assms by (auto simp: extract_findings_filter py_strip_tidy split: option.splits)

lemma process_response_tidy:
  assumes "\<forall>f\<in>set (key_findings (ctx s)). tidy f"
  shows "\<forall>f\<in>set (key_findings (ctx (snd (process_response E plan resp s)))). tidy f"
proof (cases "fst (process_response E plan resp s)")
  case None
  with extract_findings_tidy[OF assms] show ?thesis by (simp add: process_response_findings)
next
  case (Some e)
  with assms show ?thesis by (simp add: process_response_findings_raised)
qed

lemma execute_plan_tidy:
  assumes "\<forall>f\<in>set (key_findings (ctx s)). tidy f"
  shows "\<forall>f\<in>set (key_findings (ctx (snd (execute_plan E plan s)))). tidy f"
proof (cases "llm_execute_search E plan (ctx s) (world s)")
  case (Pair res w')
  show ?thesis
  proof (cases res)
    case (Inl e)
    with Pair assms show ?thesis by (simp add: execute_plan_def)
  next
    case (Inr resp)
    have "\<forall>f\<in>set (key_findings (ctx (s\<lparr>world := w',
              trace := trace s @ [ExecuteCall plan (ctx s)]\<rparr>))). tidy f"
      using assms by simp
    from process_response_tidy[OF this] Pair Inr show ?thesis
      by (simp add: execute_plan_def)
  qed
qed

lemma execute_plans_tidy:
  "\<forall>f\<in>set (key_findings (ctx s)). tidy f \<Longrightarrow>
   \<forall>f\<in>set (key_findings (ctx (snd (execute_plans E i plans s)))). tidy f"
proof (induction plans arbitrary: i s)
  case Nil
  then show ?case by simp
next
  case (Cons plan plans)
  show ?case
  proof (cases "print_all E [line_283 i plan, line_284 plan, line_285 plan]")
    case (Some e)
    with Cons.prems show ?thesis by simp
  next
    case None
    show ?thesis
    proof (cases "execute_plan E plan s")
      case (Pair r s')
      with execute_plan_tidy[OF Cons.prems, of E plan]
      have s': "\<forall>f\<in>set (key_findings (ctx s')). tidy f" by simp
      show ?thesis
      proof (cases r)
        case r: None
        with None Pair Cons.IH[OF s'] show ?thesis by simp
      next
        case (Some e)
        with None Pair s' show ?thesis by simp
      qed
    qed
  qed
qed

lemma plan_and_execute_tidy:
  assumes "\<forall>f\<in>set (key_findings (ctx s)). tidy f"
  shows "\<forall>f\<in>set (key_findings (ctx (snd (plan_and_execute E s)))). tidy f"
proof (cases "llm_plan_searches E (ctx s) (world s)")
  case (Pair res w')
  show ?thesis
  proof (cases res)
    case (Inl e)
    with Pair assms show ?thesis by (simp add: plan_and_execute_def)
  next
    case (Inr plans)
    have "\<forall>f\<in>set (key_findings (ctx (s\<lparr>world := w',
              trace := trace s @ [PlanCall (ctx s)]\<rparr>))). tidy f"
      using assms by simp
    from execute_plans_tidy[OF this] Pair Inr assms show ?thesis
      by (simp add: plan_and_execute_def split: option.splits)
  qed
qed

lemma iteration_tidy:
  assumes "\<forall>f\<in>set (key_findings (ctx s)). tidy f"
  shows "\<forall>f\<in>set (key_findings (ctx (snd (iteration E s)))). tidy f"
proof -
  let ?s1 = "s\<lparr>ctx := (ctx s)\<lparr>search_iterations := search_iterations (ctx s) + 1\<rparr>\<rparr>"
  have "\<forall>f\<in>set (key_findings (ctx ?s1)). tidy f" using assms by simp
  from plan_and_execute_tidy[OF this, of E] assms show ?thesis
    by (cases "plan_and_execute E ?s1"; cases "fst (plan_and_execute E ?s1)")
       (simp_all add: iteration_def split: option.splits)
qed

text \<open>
  The invariant of the loop: the findings of the current context are trimmed, and so
  were those of every context the stop test has been evaluated on.
\<close>

definition tidy_state :: "'w state \<Rightarrow> bool" where
  "tidy_state s \<longleftrightarrow>
     (\<forall>f\<in>set (key_findings (ctx s)). tidy f) \<and>
     (\<forall>c. StopTest c \<in> set (filter loop_event (trace s))
          \<longrightarrow> (\<forall>f\<in>set (key_findings c). tidy f))"

lemma iteration_tidy_state:
  assumes "tidy_state s"
  shows "tidy_state (snd (iteration E s))"
proof -
  from assms have "\<forall>f\<in>set (key_findings (ctx s)). tidy f" by (simp add: tidy_state_def)
  from iteration_tidy[OF this, of E]
  have kf: "\<forall>f\<in>set (key_findings (ctx (snd (iteration E s)))). tidy f" .
  have "\<forall>f\<in>set (key_findings c). tidy f"
    if "StopTest c \<in> set (filter loop_event (trace (snd (iteration E s))))" for c
  proof -
    from iteration_stop_tests[OF that]
    have "StopTest c \<in> set (filter loop_event (trace s)) \<or> c = ctx (snd (iteration E s))"
      by blast
    with assms kf show ?thesis by (auto simp: tidy_state_def)
  qed
  with kf show ?thesis by (simp add: tidy_state_def)
qed

lemma research_loop_tidy_state:
  "tidy_state s \<Longrightarrow> tidy_state (snd (research_loop E m s))"
proof (induction s rule: research_loop_induct[of m E])
  case (at_max s)
  then show ?case by simp
next
  case (ended s fl s')
  with iteration_tidy_state[of s E] show ?case by simp
next
  case (continued s s')
  with iteration_tidy_state[of s E] show ?case by simp
qed

text \<open>
  Claim C10. In every run, every string of \<open>key_findings\<close> is non-empty and neither
  starts nor ends with a white-space code point: in the context the run ends with (which
  is the one it returns), and in the context at the end of every round, where the stop
  test is evaluated.
\<close>

theorem findings_trimmed:
  "(\<forall>f\<in>set (key_findings (ctx (snd (run_deep_research_agent E q max_iterations w)))).
      f \<noteq> [] \<and> \<not> py_isspace (hd f) \<and> \<not> py_isspace (last f))
   \<and> (\<forall>c. StopTest c \<in> set (trace (snd (run_deep_research_agent E q max_iterations w)))
          \<longrightarrow> (\<forall>f\<in>set (key_findings c).
                  f \<noteq> [] \<and> \<not> py_isspace (hd f) \<and> \<not> py_isspace (last f)))
   \<and> (\<forall>r. fst (run_deep_research_agent E q max_iterations w) = Inr r
          \<longrightarrow> (\<forall>f\<in>set (key_findings (research_context r)).
                  f \<noteq> [] \<and> \<not> py_isspace (hd f) \<and> \<not> py_isspace (last f)))"
proof -
  let ?run = "run_deep_research_agent E q max_iterations w"
  let ?sL = "snd (research_loop E max_iterations (initial_state q w))"
  have "tidy_state (initial_state q w)"
    by (simp add: tidy_state_def initial_state_def new_context_def)
  then have "tidy_state ?sL"
    by (rule research_loop_tidy_state)
  then have kfL: "\<forall>f\<in>set (key_findings (ctx ?sL)).
                   f \<noteq> [] \<and> \<not> py_isspace (hd f) \<and> \<not> py_isspace (last f)"
    and stL: "\<And>c. StopTest c \<in> set (filter loop_event (trace ?sL))
               \<Longrightarrow> \<forall>f\<in>set (key_findings c).
                     f \<noteq> [] \<and> \<not> py_isspace (hd f) \<and> \<not> py_isspace (last f)"
    by (simp_all add: tidy_state_def tidy_def)
  from kfL have kf: "\<forall>f\<in>set (key_findings (ctx (snd ?run))).
                   f \<noteq> [] \<and> \<not> py_isspace (hd f) \<and> \<not> py_isspace (last f)"
    by (simp add: run_ctx new_context_def)
  have st: "\<forall>f\<in>set (key_findings c).
              f \<noteq> [] \<and> \<not> py_isspace (hd f) \<and> \<not> py_isspace (last f)"
    if "StopTest c \<in> set (trace (snd ?run))" for c
  proof -
    from that have "StopTest c \<in> set (filter loop_event (trace (snd ?run)))" by simp
    then have "StopTest c \<in> set (filter loop_event (trace ?sL))"
      unfolding run_loop_events by (simp split: if_splits)
    then show ?thesis by (rule stL)
  qed
  have "\<forall>f\<in>set (key_findings (research_context r)).
          f \<noteq> [] \<and> \<not> py_isspace (hd f) \<and> \<not> py_isspace (last f)"
    if "fst ?run = Inr r" for r
    using run_returns(1)[OF that] kf by simp
  with kf st show ?thesis by blast
qed

theorem findings_trimmed_witness:
  "str_of ''we discovered y''
     \<in> set (key_findings (ctx (snd (run_deep_research_agent talk_env (str_of ''q'') 5 ()))))
   \<and> str_of ''we discovered y'' \<noteq> []
   \<and> \<not> py_isspace (hd (str_of ''we discovered y''))
   \<and> \<not> py_isspace (last (str_of ''we discovered y''))"
  using findings_trimmed[of talk_env "str_of ''q''" 5 "()"]
  by (simp add: talk_run_state talk_ctx_def talk_pair_def)


section \<open>The intent of the results in the history\<close>

text \<open>What a step adds to the search history: \<open>new\<close> results, all with the intent \<open>p\<close>.\<close>

definition adds_with_intent :: "SearchIntent \<Rightarrow> ResearchContext \<Rightarrow> ResearchContext \<Rightarrow> bool" where
  "adds_with_intent p c c' \<longleftrightarrow>
     take (length (search_history c)) (search_history c') = search_history c \<and>
     list_all (\<lambda>r. search_intent r = p) (drop (length (search_history c)) (search_history c'))"

lemma adds_with_intent_refl: "adds_with_intent p c c"
  by (simp add: adds_with_intent_def)

lemma adds_with_intent_trans:
  assumes "adds_with_intent p c c'" and "adds_with_intent p c' c''"
  shows "adds_with_intent p c c''"
proof -
  from assms(1) obtain n1 where h1: "search_history c' = search_history c @ n1"
    and i1: "list_all (\<lambda>r. search_intent r = p) n1"
    unfolding adds_with_intent_def by (metis append_take_drop_id)
  from assms(2) obtain n2 where h2: "search_history c'' = search_history c' @ n2"
    and i2: "list_all (\<lambda>r. search_intent r = p) n2"
    unfolding adds_with_intent_def by (metis append_take_drop_id)
  from h1 h2 i1 i2 show ?thesis by (simp add: adds_with_intent_def)
qed

lemma add_results_adds: "adds_with_intent p c (add_results p rs c)"
  by (simp add: adds_with_intent_def add_results_history list_all_iff)

lemma run_tool_adds: "adds_with_intent p (ctx s) (ctx (snd (run_tool E p t s)))"
  by (cases "tool_call E t (world s)"; cases "fst (tool_call E t (world s))")
     (simp_all add: run_tool_def search_error_handler_def add_results_adds adds_with_intent_refl
        split: option.splits)

lemma run_tools_adds: "adds_with_intent p (ctx s) (ctx (snd (run_tools E p ts s)))"
proof (induction ts arbitrary: s)
  case Nil
  show ?case by (simp add: adds_with_intent_refl)
next
  case (Cons t ts)
  obtain r s' where rt: "run_tool E p t s = (r, s')" by (cases "run_tool E p t s")
  with run_tool_adds[of p s E t] have a: "adds_with_intent p (ctx s) (ctx s')" by simp
  show ?case
  proof (cases r)
    case None
    with rt a Cons[of s'] show ?thesis by (simp add: adds_with_intent_trans)
  next
    case (Some e)
    with rt a show ?thesis by simp
  qed
qed

lemma process_response_adds:
  "adds_with_intent (intent plan) (ctx s) (ctx (snd (process_response E plan resp s)))"
proof (cases rule: process_response_cases[of E plan resp s])
  case (raised e s1)
  with run_tools_adds[of "intent plan" s E "the (tools resp)"] show ?thesis by simp
next
  case (returned s1)
  with run_tools_adds[of "intent plan" s E "case tools resp of None \<Rightarrow> [] | Some ts \<Rightarrow> ts"]
  show ?thesis by (simp add: adds_with_intent_def)
qed

lemma execute_plan_adds:
  "adds_with_intent (intent plan) (ctx s) (ctx (snd (execute_plan E plan s)))"
proof (cases "llm_execute_search E plan (ctx s) (world s)")
  case (Pair res w')
  show ?thesis
  proof (cases res)
    case (Inl e)
    with Pair show ?thesis by (simp add: execute_plan_def adds_with_intent_refl)
  next
    case (Inr resp)
    with Pair
      process_response_adds[of plan "s\<lparr>world := w', trace := trace s @ [ExecuteCall plan (ctx s)]\<rparr>" E resp]
    show ?thesis by (simp add: execute_plan_def)
  qed
qed

text \<open>
  Every result of the history has the intent of a plan whose execution is in the trace.
\<close>

definition attributed :: "'w state \<Rightarrow> bool" where
  "attributed s \<longleftrightarrow>
     list_all (\<lambda>r. \<exists>plan c. ExecuteCall plan c \<in> set (trace s) \<and> search_intent r = intent plan)
       (search_history (ctx s))"

lemma run_tools_trace_grows:
  "set (trace s) \<subseteq> set (trace (snd (run_tools E p ts s)))"
proof -
  from run_tools_trace[of E p ts s] obtain n
    where "trace (snd (run_tools E p ts s)) = trace s @ map ToolCall (take n ts)" ..
  then show ?thesis by simp
qed

lemma process_response_trace_grows:
  "set (trace s) \<subseteq> set (trace (snd (process_response E plan resp s)))"
proof (cases rule: process_response_cases[of E plan resp s])
  case (raised e s1)
  with run_tools_trace_grows[of s E "intent plan" "the (tools resp)"] show ?thesis by simp
next
  case (returned s1)
  with run_tools_trace_grows[of s E "intent plan" "case tools resp of None \<Rightarrow> [] | Some ts \<Rightarrow> ts"]
  show ?thesis by simp
qed

lemma execute_plan_trace_grows:
  "set (trace s) \<subseteq> set (trace (snd (execute_plan E plan s)))"
  "ExecuteCall plan (ctx s) \<in> set (trace (snd (execute_plan E plan s)))"
proof -
  have grow: "set (trace s) \<subseteq> set (trace (snd (process_response E plan resp
                 (s\<lparr>world := w', trace := trace s @ [ExecuteCall plan (ctx s)]\<rparr>))))"
    and mem: "ExecuteCall plan (ctx s) \<in> set (trace (snd (process_response E plan resp
                 (s\<lparr>world := w', trace := trace s @ [ExecuteCall plan (ctx s)]\<rparr>))))"
    for resp w'
    using process_response_trace_grows
            [of "s\<lparr>world := w', trace := trace s @ [ExecuteCall plan (ctx s)]\<rparr>" E plan resp]
    by auto
  show "set (trace s) \<subseteq> set (trace (snd (execute_plan E plan s)))"
    using grow by (auto simp: execute_plan_def split: prod.splits sum.splits)
  show "ExecuteCall plan (ctx s) \<in> set (trace (snd (execute_plan E plan s)))"
    using mem by (auto simp: execute_plan_def split: prod.splits sum.splits)
qed

lemma execute_plan_attributed:
  assumes "attributed s"
  shows "attributed (snd (execute_plan E plan s))"
proof -
  let ?s' = "snd (execute_plan E plan s)"
  from execute_plan_adds[of plan s E]
  obtain new where h: "search_history (ctx ?s') = search_history (ctx s) @ new"
    and i: "list_all (\<lambda>r. search_intent r = intent plan) new"
    unfolding adds_with_intent_def by (metis append_take_drop_id)
  have "\<exists>pl c. ExecuteCall pl c \<in> set (trace ?s') \<and> search_intent r = intent pl"
    if "r \<in> set (search_history (ctx ?s'))" for r
  proof (cases "r \<in> set new")
    case True
    with i have "search_intent r = intent plan" by (simp add: list_all_iff)
    with execute_plan_trace_grows(2)[of plan s E] show ?thesis by blast
  next
    case False
    with that h have "r \<in> set (search_history (ctx s))" by simp
    with assms obtain pl c where "ExecuteCall pl c \<in> set (trace s)"
      and "search_intent r = intent pl"
      by (auto simp: attributed_def list_all_iff)
    with execute_plan_trace_grows(1)[of s E plan] show ?thesis by blast
  qed
  then show ?thesis by (simp add: attributed_def list_all_iff)
qed

lemma execute_plans_attributed:
  "attributed s \<Longrightarrow> attributed (snd (execute_plans E i plans s))"
proof (induction plans arbitrary: i s)
  case Nil
  then show ?case by simp
next
  case (Cons plan plans)
  show ?case
  proof (cases "print_all E [line_283 i plan, line_284 plan, line_285 plan]")
    case (Some e)
    with Cons.prems show ?thesis by simp
  next
    case None
    show ?thesis
    proof (cases "execute_plan E plan s")
      case (Pair r s')
      with execute_plan_attributed[OF Cons.prems, of E plan] have s': "attributed s'" by simp
      show ?thesis
      proof (cases r)
        case r: None
        with None Pair Cons.IH[OF s'] show ?thesis by simp
      next
        case (Some e)
        with None Pair s' show ?thesis by simp
      qed
    qed
  qed
qed

lemma attributed_cong:
  assumes "attributed s" and "search_history (ctx s') = search_history (ctx s)"
    and "set (trace s) \<subseteq> set (trace s')"
  shows "attributed s'"
  using assms by (fastforce simp: attributed_def list_all_iff)

lemma plan_and_execute_attributed:
  assumes "attributed s"
  shows "attributed (snd (plan_and_execute E s))"
proof (cases "llm_plan_searches E (ctx s) (world s)")
  case (Pair res w')
  have s1: "attributed (s\<lparr>world := w', trace := trace s @ [PlanCall (ctx s)]\<rparr>)"
    by (rule attributed_cong[OF assms]) auto
  show ?thesis
  proof (cases res)
    case (Inl e)
    with Pair s1 show ?thesis by (simp add: plan_and_execute_def)
  next
    case (Inr plans)
    with Pair s1 execute_plans_attributed[OF s1] show ?thesis
      by (simp add: plan_and_execute_def split: option.splits)
  qed
qed

lemma iteration_attributed:
  assumes "attributed s"
  shows "attributed (snd (iteration E s))"
proof -
  let ?s1 = "s\<lparr>ctx := (ctx s)\<lparr>search_iterations := search_iterations (ctx s) + 1\<rparr>\<rparr>"
  have s1: "attributed ?s1" by (rule attributed_cong[OF assms]) auto
  from plan_and_execute_attributed[OF this, of E]
  have s2: "attributed (snd (plan_and_execute E ?s1))" .
  show ?thesis
  proof (cases "plan_and_execute E ?s1")
    case (Pair r s')
    with s2 have s': "attributed s'" by simp
    show ?thesis
    proof (cases r)
      case None
      have "attributed (s'\<lparr>trace := trace s' @ [StopTest (ctx s')]\<rparr>)"
        by (rule attributed_cong[OF s']) auto
      with Pair None s1 show ?thesis by (simp add: iteration_def split: option.splits)
    next
      case (Some e)
      with Pair s' s1 show ?thesis by (simp add: iteration_def split: option.splits)
    qed
  qed
qed

lemma research_loop_attributed:
  "attributed s \<Longrightarrow> attributed (snd (research_loop E m s))"
proof (induction s rule: research_loop_induct[of m E])
  case (at_max s)
  then show ?case by simp
next
  case (ended s fl s')
  with iteration_attributed[of s E] show ?case by simp
next
  case (continued s s')
  with iteration_attributed[of s E] show ?case by simp
qed

lemma synthesize_and_return_trace_grows:
  "set (trace s) \<subseteq> set (trace (snd (synthesize_and_return E s)))"
  by (auto simp: synthesize_and_return_def split: option.splits prod.splits sum.splits)

lemma run_attributed: "attributed (snd (run_deep_research_agent E q m w))"
proof -
  have s0: "attributed (initial_state q w)"
    by (simp add: attributed_def initial_state_def new_context_def)
  then have sL: "attributed (snd (research_loop E m (initial_state q w)))"
    by (rule research_loop_attributed)
  show ?thesis
  proof (cases rule: run_cases[of E q m w])
    case (unprinted e)
    with s0 show ?thesis by simp
  next
    case (aborted e s)
    with sL show ?thesis by simp
  next
    case (synthesized s)
    with sL have "attributed s" by simp
    then have "attributed (snd (synthesize_and_return E s))"
      by (rule attributed_cong)
         (simp_all add: synthesize_and_return_ctx synthesize_and_return_trace_grows)
    with synthesized show ?thesis by simp
  qed
qed

text \<open>
  Claim C3. The execution of a plan keeps the search history it finds and appends only
  results whose \<open>search_intent\<close> is the intent of that plan; so an appended result has
  the placeholder \<open>INITIAL_EXPLORATION\<close> only when that is the plan's intent. And in
  every run, every result of the final history has the intent of a plan that the run
  executed.
\<close>

theorem history_carries_plan_intent:
  "take (length (search_history (ctx s))) (search_history (ctx (snd (execute_plan E plan s))))
     = search_history (ctx s)
   \<and> (\<forall>r\<in>set (drop (length (search_history (ctx s)))
                   (search_history (ctx (snd (execute_plan E plan s))))).
         search_intent r = intent plan
         \<and> (search_intent r = INITIAL_EXPLORATION \<longrightarrow> intent plan = INITIAL_EXPLORATION))
   \<and> (\<forall>r\<in>set (search_history (ctx (snd (run_deep_research_agent E q max_iterations w)))).
         \<exists>pl c. ExecuteCall pl c
                  \<in> set (trace (snd (run_deep_research_agent E q max_iterations w)))
                \<and> search_intent r = intent pl)"
proof -
  from execute_plan_adds[of plan s E]
  have one: "take (length (search_history (ctx s)))
               (search_history (ctx (snd (execute_plan E plan s)))) = search_history (ctx s)"
    and two: "\<forall>r\<in>set (drop (length (search_history (ctx s)))
                   (search_history (ctx (snd (execute_plan E plan s))))).
                search_intent r = intent plan"
    by (simp_all add: adds_with_intent_def list_all_iff)
  from run_attributed[of E q max_iterations w] have three:
    "\<forall>r\<in>set (search_history (ctx (snd (run_deep_research_agent E q max_iterations w)))).
         \<exists>pl c. ExecuteCall pl c
                  \<in> set (trace (snd (run_deep_research_agent E q max_iterations w)))
                \<and> search_intent r = intent pl"
    by (simp add: attributed_def list_all_iff)
  from one two three show ?thesis by simp
qed

text \<open>One plan executed in the environment of the first section.\<close>

lemma demo_execute_plan:
  "execute_plan demo_env plan \<lparr>ctx = c, world = (), trace = tr\<rparr>
     = (None,
        \<lparr>ctx = c\<lparr>search_history := search_history c @ two_results_as (intent plan),
                 key_findings := key_findings c @ [str_of ''A finding'']\<rparr>,
          world = (),
          trace = tr @ [ExecuteCall plan c, ToolCall (GetSearchResults (plan_query plan) 2 True)]\<rparr>)"
  by (simp add: execute_plan_def demo_env_simps demo_process_response)

theorem history_carries_plan_intent_witness:
  "search_history (ctx (snd (execute_plan demo_env plan_a (initial_state (str_of ''q'') ()))))
     = two_results_as DEEP_DIVE
   \<and> hd (two_results_as DEEP_DIVE)
       \<in> set (drop (length (search_history (ctx (initial_state (str_of ''q'') ()))))
                (search_history
                   (ctx (snd (execute_plan demo_env plan_a (initial_state (str_of ''q'') ()))))))
   \<and> search_intent (hd (two_results_as DEEP_DIVE)) = intent plan_a"
  using history_carries_plan_intent
          [of "initial_state (str_of ''q'') ()" demo_env plan_a "str_of ''q''" 0 "()"]
  by (simp add: initial_state_def demo_execute_plan new_context_def)
     (simp add: two_results_as_def plan_a_def)


section \<open>Failure of the planner\<close>

lemma py_print_cases: "py_print E s = None \<or> py_print E s = Some encode_error"
  by (simp add: py_print_def)

lemma py_print_not_None: "py_print E s \<noteq> None \<longleftrightarrow> py_print E s = Some encode_error"
  by (simp add: py_print_def)

text \<open>
  A pass whose \<open>try\<close> block raises: the handler prints the exception and breaks, and when
  that \<open>print\<close> raises, its exception leaves the function.
\<close>

lemma iteration_raised:
  assumes "py_print E (line_274 ((ctx s)\<lparr>search_iterations := search_iterations (ctx s) + 1\<rparr>))
             = None"
    and "plan_and_execute E
           (s\<lparr>ctx := (ctx s)\<lparr>search_iterations := search_iterations (ctx s) + 1\<rparr>\<rparr>)
           = (Some e, s')"
  shows "iteration E s
           = (if py_print E (line_313 e) = None then Leave else Abort encode_error, s')"
  using assms py_print_cases[of E "line_313 e"] by (auto simp: iteration_def)

lemma research_loop_raised:
  assumes "search_iterations (ctx s) < m"
    and "py_print E (line_274 ((ctx s)\<lparr>search_iterations := search_iterations (ctx s) + 1\<rparr>))
           = None"
    and "plan_and_execute E
           (s\<lparr>ctx := (ctx s)\<lparr>search_iterations := search_iterations (ctx s) + 1\<rparr>\<rparr>)
           = (Some e, s')"
  shows "research_loop E m s
           = (if py_print E (line_313 e) = None then None else Some encode_error, s')"
  using assms(1) iteration_raised[OF assms(2,3)] by (simp add: research_loop.simps)

lemma plan_and_execute_planner_fails:
  assumes "llm_plan_searches E (ctx s) (world s) = (Inl e, w1)"
  shows "plan_and_execute E s = (Some e, s\<lparr>world := w1, trace := trace s @ [PlanCall (ctx s)]\<rparr>)"
  using assms by (simp add: plan_and_execute_def)

lemma research_loop_planner_fails:
  assumes "search_iterations (ctx s) < m"
    and "py_print E (line_274 ((ctx s)\<lparr>search_iterations := search_iterations (ctx s) + 1\<rparr>))
           = None"
    and "llm_plan_searches E ((ctx s)\<lparr>search_iterations := search_iterations (ctx s) + 1\<rparr>)
             (world s) = (Inl e, w1)"
  shows "research_loop E m s =
           (if py_print E (line_313 e) = None then None else Some encode_error,
            s\<lparr>ctx := (ctx s)\<lparr>search_iterations := search_iterations (ctx s) + 1\<rparr>,
              world := w1,
              trace := trace s @ [PlanCall ((ctx s)\<lparr>search_iterations :=
                                             search_iterations (ctx s) + 1\<rparr>)]\<rparr>)"
proof -
  let ?s1 = "s\<lparr>ctx := (ctx s)\<lparr>search_iterations := search_iterations (ctx s) + 1\<rparr>\<rparr>"
  from assms(3) have "llm_plan_searches E (ctx ?s1) (world ?s1) = (Inl e, w1)" by simp
  from plan_and_execute_planner_fails[OF this] research_loop_raised[OF assms(1,2)]
  show ?thesis by simp
qed

text \<open>
  What follows the loop, on a stream that accepts the first line of the run, for a context
  whose query and findings the stream accepts: every \<open>print\<close> succeeds, and the outcome
  is that of the model call.
\<close>

lemma printable_join:
  assumes "printable E sep" and "\<forall>x\<in>set xs. printable E x"
  shows "printable E (py_join sep xs)"
  using assms by (induction sep xs rule: py_join.induct) (simp_all add: printable_append printable_def)

lemma synthesize_and_return_printed:
  assumes "is_complete (stdout E)" and "printable E (query (ctx s))"
    and "\<forall>f\<in>set (key_findings (ctx s)). printable E f"
  shows "synthesize_and_return E s
           = (map_sum id
                (\<lambda>report. \<lparr>final_report = report, research_context = ctx s,
                            iterations = search_iterations (ctx s)\<rparr>)
                (fst (llm_synthesize_research E (ctx s) (world s))),
              s\<lparr>world := snd (llm_synthesize_research E (ctx s) (world s)),
                trace := trace s @ [SynthesizeCall (ctx s)]\<rparr>)"
proof -
  have nl: "printable E [10]"
    using assms(1) by (intro printable_scalar) (simp_all add: is_surrogate_def)
  have "printable E (py_join [10] (key_findings (ctx s)))"
    using nl assms(3) by (rule printable_join)
  then have l248: "py_print E (line_248 (ctx s)) = None"
    unfolding line_248_def by (intro py_print_complete assms(1)) (simp_all add: scalar_ascii)
  have l246: "py_print E (line_246 (ctx s)) = None"
    unfolding line_246_def by (intro py_print_complete assms(1,2)) (simp_all add: scalar_ascii)
  note fp = fixed_prints[OF assms(1)]
  show ?thesis
    by (cases "llm_synthesize_research E (ctx s) (world s)";
        cases "fst (llm_synthesize_research E (ctx s) (world s))")
       (simp_all add: synthesize_and_return_def synthesize_research_def fp l246 l248)
qed

lemma initial_counted:
  "(ctx (initial_state q w))\<lparr>search_iterations := search_iterations (ctx (initial_state q w)) + 1\<rparr>
     = (new_context q)\<lparr>search_iterations := 1\<rparr>"
  by (simp add: initial_state_def new_context_def)











section \<open>Failure of the search provider\<close>


text \<open>The handler: the empty list when the exception is printed, the exception of \<open>print\<close> otherwise.\<close>

lemma get_search_results_handler:
  assumes "get_search_results_try E q n a w1 = (Inl e, w2)"
  shows "get_search_results E q n a w1
           = (if py_print E (line_78 e) = None then Inr [] else Inl encode_error, w2)"
  using assms py_print_cases[of E "line_78 e"] by (auto simp: get_search_results_def)




text \<open>
  The environment of the first section without the search credential: the provider
  client rejects every call.
\<close>

definition no_key_env :: "unit env" where
  "no_key_env = demo_env\<lparr>exa_api_key := None\<rparr>"

lemma no_key_provider:
  "exa_search_and_contents no_key_env (exa_api_key no_key_env) q n a () = (Inl auth_error, ())"
  by (simp add: no_key_env_def demo_env_def)

lemma no_key_print: "scalar_text s \<Longrightarrow> py_print no_key_env s = None"
  by (rule py_print_scalar) (simp_all add: no_key_env_def demo_env_def utf8_strict_def)

lemma plan_lines_scalar:
  "scalar_text (line_284 plan_a)" "scalar_text (line_285 plan_a)"
  "scalar_text (line_284 plan_b)" "scalar_text (line_285 plan_b)"
  "scalar_text (line_284 plan_c)" "scalar_text (line_285 plan_c)"
  by (simp_all add: variable_lines_scalar plan_a_def plan_b_def plan_c_def scalar_ascii)

lemma auth_error_scalar: "scalar_text (error_text auth_error)"
  by (simp add: auth_error_def scalar_ascii)






section \<open>Failure inside the execution of a plan\<close>















section \<open>Credentials\<close>

text \<open>Every step of a run only adds events to the trace.\<close>

lemma process_response_trace_extends:
  "\<exists>tr. trace (snd (process_response E plan resp s)) = trace s @ tr"
proof (cases rule: process_response_cases[of E plan resp s])
  case (raised e s1)
  with run_tools_trace[of E "intent plan" "the (tools resp)" s] show ?thesis by auto
next
  case (returned s1)
  with run_tools_trace[of E "intent plan" "case tools resp of None \<Rightarrow> [] | Some ts \<Rightarrow> ts" s]
  show ?thesis by auto
qed

lemma execute_plan_trace_extends:
  "\<exists>tr. trace (snd (execute_plan E plan s)) = trace s @ tr"
proof (cases "llm_execute_search E plan (ctx s) (world s)")
  case (Pair res w')
  show ?thesis
  proof (cases res)
    case (Inl e)
    with Pair show ?thesis by (simp add: execute_plan_def)
  next
    case (Inr resp)
    from process_response_trace_extends
           [of E plan resp "s\<lparr>world := w', trace := trace s @ [ExecuteCall plan (ctx s)]\<rparr>"]
    obtain tr where "trace (snd (process_response E plan resp
                       (s\<lparr>world := w', trace := trace s @ [ExecuteCall plan (ctx s)]\<rparr>)))
                     = trace s @ ExecuteCall plan (ctx s) # tr"
      by auto
    with Pair Inr show ?thesis by (simp add: execute_plan_def)
  qed
qed

lemma execute_plans_trace_extends:
  "\<exists>tr. trace (snd (execute_plans E i plans s)) = trace s @ tr"
proof (induction plans arbitrary: i s)
  case Nil
  show ?case by simp
next
  case (Cons plan plans)
  show ?case
  proof (cases "print_all E [line_283 i plan, line_284 plan, line_285 plan]")
    case (Some e)
    then show ?thesis by simp
  next
    case None
    obtain r s' where ep: "execute_plan E plan s = (r, s')" by (cases "execute_plan E plan s")
    with execute_plan_trace_extends[of E plan s] obtain tr1 where t1: "trace s' = trace s @ tr1"
      by auto
    show ?thesis
    proof (cases r)
      case (Some e)
      with None ep t1 show ?thesis by simp
    next
      case r: None
      from Cons[of "Suc i" s'] obtain tr2
        where "trace (snd (execute_plans E (Suc i) plans s')) = trace s' @ tr2" ..
      with None ep r t1 show ?thesis by simp
    qed
  qed
qed

lemma plan_and_execute_trace_extends:
  "\<exists>tr. trace (snd (plan_and_execute E s)) = trace s @ PlanCall (ctx s) # tr"
proof (cases "llm_plan_searches E (ctx s) (world s)")
  case (Pair res w')
  show ?thesis
  proof (cases res)
    case (Inl e)
    with Pair show ?thesis by (simp add: plan_and_execute_def)
  next
    case (Inr plans)
    from execute_plans_trace_extends
           [of E 0 "take 2 plans" "s\<lparr>world := w', trace := trace s @ [PlanCall (ctx s)]\<rparr>"]
    obtain tr where "trace (snd (execute_plans E 0 (take 2 plans)
                       (s\<lparr>world := w', trace := trace s @ [PlanCall (ctx s)]\<rparr>)))
                     = trace s @ PlanCall (ctx s) # tr"
      by auto
    with Pair Inr show ?thesis by (auto simp: plan_and_execute_def split: option.splits)
  qed
qed

lemma iteration_trace_extends:
  "\<exists>tr. trace (snd (iteration E s)) = trace s @ tr"
proof -
  let ?s1 = "s\<lparr>ctx := (ctx s)\<lparr>search_iterations := search_iterations (ctx s) + 1\<rparr>\<rparr>"
  obtain r s' where pe: "plan_and_execute E ?s1 = (r, s')" by (cases "plan_and_execute E ?s1")
  with plan_and_execute_trace_extends[of E ?s1] obtain tr where "trace s' = trace s @ tr"
    by auto
  with pe show ?thesis
    by (cases r) (simp_all add: iteration_def split: option.splits)
qed

lemma research_loop_trace_extends:
  "\<exists>tr. trace (snd (research_loop E m s)) = trace s @ tr"
proof (induction s rule: research_loop_induct[of m E])
  case (at_max s)
  then show ?case by simp
next
  case (ended s fl s')
  with iteration_trace_extends[of E s] show ?case by simp
next
  case (continued s s')
  from continued(2) iteration_trace_extends[of E s] obtain tr1
    where "trace s' = trace s @ tr1" by auto
  moreover from continued(4) obtain tr2
    where "trace (snd (research_loop E m s')) = trace s' @ tr2" ..
  ultimately show ?case using continued(3) by simp
qed

lemma synthesize_and_return_trace_extends:
  "\<exists>tr. trace (snd (synthesize_and_return E s)) = trace s @ tr"
  by (simp add: synthesize_and_return_def split: option.splits prod.splits sum.splits)

text \<open>
  A run that prints its first line, with \<open>max_iterations\<close> at least 1, starts with the
  planning call of round 1: nothing is checked before the loop.
\<close>

lemma run_starts_with_planning:
  assumes "0 < max_iterations" and "py_print E (line_269 question) = None"
  shows "\<exists>tr. trace (snd (run_deep_research_agent E question max_iterations w0))
               = PlanCall ((new_context question)\<lparr>search_iterations := 1\<rparr>) # tr"
proof -
  let ?s0 = "initial_state question w0"
  let ?c1 = "(new_context question)\<lparr>search_iterations := 1\<rparr>"
  let ?s1 = "?s0\<lparr>ctx := (ctx ?s0)\<lparr>search_iterations := search_iterations (ctx ?s0) + 1\<rparr>\<rparr>"
  note complete = banner_printed(1)[OF assms(2)]
  have lt: "search_iterations (ctx ?s0) < max_iterations"
    using assms(1) by (simp add: initial_state_def new_context_def)
  have l274: "py_print E (line_274 ((ctx ?s0)\<lparr>search_iterations :=
                search_iterations (ctx ?s0) + 1\<rparr>)) = None"
    using complete by (rule fixed_prints)
  obtain r s' where pe: "plan_and_execute E ?s1 = (r, s')" by (cases "plan_and_execute E ?s1")
  with plan_and_execute_trace_extends[of E ?s1] obtain tr1
    where t1: "trace s' = PlanCall ?c1 # tr1"
    by (auto simp: initial_state_def new_context_def)
  obtain fl s'' where it: "iteration E ?s0 = (fl, s'')" by (cases "iteration E ?s0")
  with pe l274 t1 obtain tr2 where t2: "trace s'' = PlanCall ?c1 # tr2"
    by (cases r) (auto simp: iteration_def split: option.splits if_splits)
  have "\<exists>tr. trace (snd (research_loop E max_iterations ?s0)) = PlanCall ?c1 # tr"
  proof (cases fl)
    case Next
    from research_loop_trace_extends[of E max_iterations s''] t2 lt it Next show ?thesis
      by (auto simp: research_loop.simps[of E max_iterations ?s0])
  next
    case Leave
    with t2 lt it show ?thesis by (simp add: research_loop.simps[of E max_iterations ?s0])
  next
    case (Abort e)
    with t2 lt it show ?thesis by (simp add: research_loop.simps[of E max_iterations ?s0])
  qed
  then obtain tr where loop: "trace (snd (research_loop E max_iterations ?s0)) = PlanCall ?c1 # tr" ..
  show ?thesis
  proof (cases rule: run_cases[of E question max_iterations w0])
    case (unprinted e)
    with assms(2) show ?thesis by simp
  next
    case (aborted e s)
    with loop show ?thesis by simp
  next
    case (synthesized s)
    with loop synthesize_and_return_trace_extends[of E s] show ?thesis by auto
  qed
qed

text \<open>When no search ever returns a result, the history never changes.\<close>

lemma run_tool_no_results:
  assumes "\<And>q n a w rs. fst (get_search_results E q n a w) = Inr rs \<Longrightarrow> rs = []"
  shows "search_history (ctx (snd (run_tool E p t s))) = search_history (ctx s)"
proof (cases t)
  case (GetSearchResults q n a)
  obtain res w' where gs: "get_search_results E q n a (world s) = (res, w')"
    by (cases "get_search_results E q n a (world s)")
  show ?thesis
  proof (cases res)
    case (Inl e)
    with gs GetSearchResults show ?thesis
      by (simp add: run_tool_def tool_call_def search_error_handler_def)
  next
    case (Inr rs)
    with gs assms[of q n a "world s" rs] have "rs = []" by simp
    with gs Inr GetSearchResults show ?thesis
      by (simp add: run_tool_def tool_call_def search_error_handler_def split: option.splits)
  qed
next
  case (BrokenTool e)
  then show ?thesis by (simp add: run_tool_def tool_call_def search_error_handler_def)
qed

lemma run_tools_no_results:
  assumes "\<And>q n a w rs. fst (get_search_results E q n a w) = Inr rs \<Longrightarrow> rs = []"
  shows "search_history (ctx (snd (run_tools E p ts s))) = search_history (ctx s)"
proof (induction ts arbitrary: s)
  case Nil
  show ?case by simp
next
  case (Cons t ts)
  obtain r s' where rt: "run_tool E p t s = (r, s')" by (cases "run_tool E p t s")
  with run_tool_no_results[of E p t s, OF assms] Cons[of s'] show ?case
    by (cases r) simp_all
qed

lemma process_response_no_results:
  assumes "\<And>q n a w rs. fst (get_search_results E q n a w) = Inr rs \<Longrightarrow> rs = []"
  shows "search_history (ctx (snd (process_response E plan resp s))) = search_history (ctx s)"
proof (cases rule: process_response_cases[of E plan resp s])
  case (raised e s1)
  with run_tools_no_results[of E "intent plan" "the (tools resp)" s, OF assms] show ?thesis by simp
next
  case (returned s1)
  with run_tools_no_results[of E "intent plan"
         "case tools resp of None \<Rightarrow> [] | Some ts \<Rightarrow> ts" s, OF assms]
  show ?thesis by simp
qed

lemma execute_plan_no_results:
  assumes "\<And>q n a w rs. fst (get_search_results E q n a w) = Inr rs \<Longrightarrow> rs = []"
  shows "search_history (ctx (snd (execute_plan E plan s))) = search_history (ctx s)"
  by (simp add: execute_plan_def process_response_no_results[OF assms]
        split: prod.splits sum.splits)

lemma execute_plans_no_results:
  assumes "\<And>q n a w rs. fst (get_search_results E q n a w) = Inr rs \<Longrightarrow> rs = []"
  shows "search_history (ctx (snd (execute_plans E i plans s))) = search_history (ctx s)"
proof (induction plans arbitrary: i s)
  case Nil
  show ?case by simp
next
  case (Cons plan plans)
  show ?case
  proof (cases "print_all E [line_283 i plan, line_284 plan, line_285 plan]")
    case (Some e)
    then show ?thesis by simp
  next
    case None
    show ?thesis
    proof (cases "execute_plan E plan s")
      case (Pair r s')
      with None Cons[of "Suc i" s'] execute_plan_no_results[of E plan s, OF assms] show ?thesis
        by (cases r) simp_all
    qed
  qed
qed

lemma iteration_no_results:
  assumes "\<And>q n a w rs. fst (get_search_results E q n a w) = Inr rs \<Longrightarrow> rs = []"
  shows "search_history (ctx (snd (iteration E s))) = search_history (ctx s)"
proof -
  let ?s1 = "s\<lparr>ctx := (ctx s)\<lparr>search_iterations := search_iterations (ctx s) + 1\<rparr>\<rparr>"
  have "search_history (ctx (snd (plan_and_execute E ?s1))) = search_history (ctx ?s1)"
    by (simp add: plan_and_execute_def execute_plans_no_results[OF assms]
          split: prod.splits sum.splits option.splits)
  then show ?thesis
    by (cases "plan_and_execute E ?s1"; cases "fst (plan_and_execute E ?s1)")
       (simp_all add: iteration_def split: option.splits)
qed

lemma research_loop_no_results:
  assumes "\<And>q n a w rs. fst (get_search_results E q n a w) = Inr rs \<Longrightarrow> rs = []"
  shows "search_history (ctx (snd (research_loop E m s))) = search_history (ctx s)"
proof (induction s rule: research_loop_induct[of m E])
  case (at_max s)
  then show ?case by simp
next
  case (ended s fl s')
  with iteration_no_results[of E s, OF assms] show ?case by simp
next
  case (continued s s')
  with iteration_no_results[of E s, OF assms] show ?case by simp
qed

text \<open>
  A planner that raises in round 1, in a run that printed its first line and can print
  the planner's exception: the run is one planning call and the synthesis.
\<close>

lemma run_planner_fails:
  assumes "0 < max_iterations" and "py_print E (line_269 q) = None"
    and "llm_plan_searches E ((new_context q)\<lparr>search_iterations := 1\<rparr>) w = (Inl e, w1)"
    and "py_print E (line_313 e) = None"
  shows "run_deep_research_agent E q max_iterations w
           = (map_sum id
                (\<lambda>report. \<lparr>final_report = report,
                            research_context = (new_context q)\<lparr>search_iterations := 1\<rparr>,
                            iterations = 1\<rparr>)
                (fst (llm_synthesize_research E ((new_context q)\<lparr>search_iterations := 1\<rparr>) w1)),
              \<lparr>ctx = (new_context q)\<lparr>search_iterations := 1\<rparr>,
                world = snd (llm_synthesize_research E
                               ((new_context q)\<lparr>search_iterations := 1\<rparr>) w1),
                trace = [PlanCall ((new_context q)\<lparr>search_iterations := 1\<rparr>),
                         SynthesizeCall ((new_context q)\<lparr>search_iterations := 1\<rparr>)]\<rparr>)"
proof -
  let ?c1 = "(new_context q)\<lparr>search_iterations := 1\<rparr>"
  let ?s1 = "\<lparr>ctx = ?c1, world = w1, trace = [PlanCall ?c1]\<rparr>"
  note complete = banner_printed[OF assms(2)]
  from assms(1) have lt: "search_iterations (ctx (initial_state q w)) < max_iterations"
    by (simp add: initial_state_def new_context_def)
  have l274: "py_print E (line_274 ((ctx (initial_state q w))\<lparr>search_iterations :=
              search_iterations (ctx (initial_state q w)) + 1\<rparr>)) = None"
    using complete(1) by (rule fixed_prints)
  from assms(3) have pl: "llm_plan_searches E
      ((ctx (initial_state q w))\<lparr>search_iterations :=
              search_iterations (ctx (initial_state q w)) + 1\<rparr>)
      (world (initial_state q w)) = (Inl e, w1)"
    unfolding initial_counted by (simp add: initial_state_simps)
  have loop: "research_loop E max_iterations (initial_state q w) = (None, ?s1)"
    using research_loop_planner_fails[OF lt l274 pl] assms(4)
    by (simp add: initial_counted) (simp add: initial_state_def)
  have b: "print_all E [line_269 q, line_270] = None"
    using assms(2) by (simp only: banner_iff)
  have syn: "synthesize_and_return E ?s1
           = (map_sum id
                (\<lambda>report. \<lparr>final_report = report, research_context = ?c1, iterations = 1\<rparr>)
                (fst (llm_synthesize_research E ?c1 w1)),
              \<lparr>ctx = ?c1, world = snd (llm_synthesize_research E ?c1 w1),
                trace = [PlanCall ?c1, SynthesizeCall ?c1]\<rparr>)"
    using synthesize_and_return_printed[of E ?s1] complete
    by (simp add: new_context_def)
  show ?thesis
    unfolding run_deep_research_agent_def b loop by (simp add: syn)
qed


text \<open>
  Claim C6, amended. Nothing checks a credential before the loop: a run that prints its
  first line, with \<open>max_iterations\<close> at least 1, starts with the planning call of round 1.
  When the search credential is absent and the provider client rejects every call for
  it, every call of \<open>get_search_results\<close> returns the empty list when standard output
  accepts the line its handler prints, and raises the \<open>UnicodeEncodeError\<close> of that \<open>print\<close>
  otherwise; either way the history of the run stays empty. When the model provider
  rejects the calls (as it does without its credential), the failure appears inside the
  loop: in a run that prints its first line, with \<open>max_iterations\<close> at least 1, the
  planning call of round 1 raises, the handler of the round prints the exception (which
  standard output is taken to accept) and the loop ends, and the exception that reaches
  the caller is the one of the synthesis call that follows.
\<close>

theorem credentials_not_checked_up_front:
  "(0 < max_iterations \<and> py_print E (line_269 question) = None \<longrightarrow>
      (\<exists>tr. trace (snd (run_deep_research_agent E question max_iterations w0))
               = PlanCall ((new_context question)\<lparr>search_iterations := 1\<rparr>) # tr))
   \<and> (exa_api_key E = None \<and>
       (\<forall>q n a w. \<exists>e. fst (exa_search_and_contents E None q n a w) = Inl e) \<longrightarrow>
         (\<forall>q n a w e.
            fst (exa_search_and_contents E None q n a w) = Inl e \<longrightarrow>
            fst (get_search_results E q n a w)
              = (if py_print E (line_78 e) = None then Inr [] else Inl encode_error))
         \<and> search_history (ctx (snd (run_deep_research_agent E question max_iterations w0))) = [])
   \<and> (\<forall>e1 w1 e2 w2.
        0 < max_iterations \<and>
        py_print E (line_269 question) = None \<and>
        llm_plan_searches E ((new_context question)\<lparr>search_iterations := 1\<rparr>) w0
          = (Inl e1, w1) \<and>
        py_print E (line_313 e1) = None \<and>
        llm_synthesize_research E ((new_context question)\<lparr>search_iterations := 1\<rparr>) w1
          = (Inl e2, w2) \<longrightarrow>
        fst (run_deep_research_agent E question max_iterations w0) = Inl e2
        \<and> trace (snd (run_deep_research_agent E question max_iterations w0))
            = [PlanCall ((new_context question)\<lparr>search_iterations := 1\<rparr>),
               SynthesizeCall ((new_context question)\<lparr>search_iterations := 1\<rparr>)])"
proof -
  let ?run = "run_deep_research_agent E question max_iterations w0"
  let ?c1 = "(new_context question)\<lparr>search_iterations := 1\<rparr>"
  have search: "(\<forall>q n a w e.
            fst (exa_search_and_contents E None q n a w) = Inl e \<longrightarrow>
            fst (get_search_results E q n a w)
              = (if py_print E (line_78 e) = None then Inr [] else Inl encode_error))
         \<and> search_history (ctx (snd ?run)) = []"
    if key: "exa_api_key E = None"
      and rej: "\<forall>q n a w. \<exists>e. fst (exa_search_and_contents E None q n a w) = Inl e"
  proof -
    have gs: "fst (get_search_results E q n a w)
                = (if py_print E (line_78 e) = None then Inr [] else Inl encode_error)"
      if "fst (exa_search_and_contents E None q n a w) = Inl e" for q n a w e
    proof -
      from that key have "get_search_results_try E q n a w
                            = (Inl e, snd (exa_search_and_contents E None q n a w))"
        by (cases "exa_search_and_contents E None q n a w")
           (simp add: get_search_results_try_def)
      from get_search_results_handler[OF this] show ?thesis by simp
    qed
    have none: "rs = []" if "fst (get_search_results E q n a w) = Inr rs" for q n a w rs
    proof -
      from rej obtain e where "fst (exa_search_and_contents E None q n a w) = Inl e" by blast
      from gs[OF this] that show ?thesis by (simp split: if_splits)
    qed
    have "search_history (ctx (snd (research_loop E max_iterations (initial_state question w0))))
            = search_history (ctx (initial_state question w0))"
      by (rule research_loop_no_results) (rule none)
    then have "search_history (ctx (snd ?run)) = []"
      by (simp add: run_ctx initial_state_def new_context_def)
    with gs show ?thesis by blast
  qed
  have llm: "fst ?run = Inl e2 \<and> trace (snd ?run) = [PlanCall ?c1, SynthesizeCall ?c1]"
    if "0 < max_iterations" "py_print E (line_269 question) = None"
      "llm_plan_searches E ?c1 w0 = (Inl e1, w1)" "py_print E (line_313 e1) = None"
      "llm_synthesize_research E ?c1 w1 = (Inl e2, w2)"
    for e1 w1 e2 w2
    using run_planner_fails[OF that(1-4)] that(5) by simp
  from run_starts_with_planning[of max_iterations E question w0] search llm
  show ?thesis by blast
qed

text \<open>
  One round without the search credential: both searches fail, the run returns a report
  with \<open>iterations = 1\<close>, and no configuration error is raised.
\<close>

lemma no_key_simps:
  "exa_api_key no_key_env = None"
  "llm_plan_searches no_key_env c w = (Inr [plan_a, plan_b, plan_c], w)"
  "llm_execute_search no_key_env p c w = (Inr (demo_response p), w)"
  "llm_synthesize_research no_key_env c w = (Inr (str_of ''report''), w)"
  by (simp_all add: no_key_env_def demo_env_def demo_response_def)

lemma no_key_search: "get_search_results no_key_env q n a () = (Inr [], ())"
proof -
  have "get_search_results_try no_key_env q n a () = (Inl auth_error, ())"
    by (simp add: get_search_results_try_def no_key_provider)
  from get_search_results_handler[OF this] show ?thesis
    by (simp add: no_key_print variable_lines_scalar auth_error_scalar)
qed

lemma no_key_execute_plan:
  "execute_plan no_key_env plan \<lparr>ctx = c, world = (), trace = tr\<rparr>
     = (None,
        \<lparr>ctx = c\<lparr>key_findings := key_findings c @ [str_of ''A finding'']\<rparr>,
          world = (),
          trace = tr @ [ExecuteCall plan c, ToolCall (GetSearchResults (plan_query plan) 2 True)]\<rparr>)"
  by (simp add: execute_plan_def no_key_simps process_response_def demo_response_def
        run_tool_def tool_call_def no_key_search no_key_print fixed_lines_scalar
        extract_key_findings_def demo_extract)

definition no_key_final :: ResearchContext where
  "no_key_final =
     \<lparr>query = str_of ''q'', search_history = [],
      key_findings = [str_of ''A finding'', str_of ''A finding''],
      unanswered_questions = [], search_iterations = 1\<rparr>"

definition no_key_trace :: "event list" where
  "no_key_trace =
     [PlanCall ((new_context (str_of ''q''))\<lparr>search_iterations := 1\<rparr>),
      ExecuteCall plan_a ((new_context (str_of ''q''))\<lparr>search_iterations := 1\<rparr>),
      ToolCall (GetSearchResults (plan_query plan_a) 2 True),
      ExecuteCall plan_b
        ((new_context (str_of ''q''))
           \<lparr>search_iterations := 1, key_findings := [str_of ''A finding'']\<rparr>),
      ToolCall (GetSearchResults (plan_query plan_b) 2 True),
      StopTest no_key_final]"

lemma no_key_loop:
  "research_loop no_key_env 1 (initial_state (str_of ''q'') ())
     = (None, \<lparr>ctx = no_key_final, world = (), trace = no_key_trace\<rparr>)"
proof -
  have it: "iteration no_key_env (initial_state (str_of ''q'') ())
              = (Next, \<lparr>ctx = no_key_final, world = (), trace = no_key_trace\<rparr>)"
    by (simp add: iteration_def plan_and_execute_def no_key_simps initial_state_def
          numeral_2_eq_2 no_key_execute_plan no_key_print fixed_lines_scalar plan_lines_scalar
          sufficient_def)
       (simp add: new_context_def no_key_final_def no_key_trace_def)
  have n0: "search_iterations (ctx (initial_state (str_of ''q'') () :: unit state)) < 1"
    by (simp add: initial_state_def new_context_def)
  have n1: "\<not> search_iterations (ctx \<lparr>ctx = no_key_final, world = (), trace = no_key_trace\<rparr>) < 1"
    by (simp add: no_key_final_def)
  show ?thesis
    apply (subst research_loop.simps)
    apply (simp only: n0 it if_True prod.case flow.case)
    apply (subst research_loop.simps)
    apply (simp only: n1 if_False)
    done
qed

theorem credentials_counterexample:
  "exa_api_key no_key_env = None
   \<and> fst (run_deep_research_agent no_key_env (str_of ''q'') 1 ())
       = Inr \<lparr>final_report = str_of ''report'', research_context = no_key_final,
               iterations = 1\<rparr>"
proof -
  let ?sL = "\<lparr>ctx = no_key_final, world = (), trace = no_key_trace\<rparr>"
  have b: "print_all no_key_env [line_269 (str_of ''q''), line_270] = None"
    by (simp add: no_key_print variable_lines_scalar fixed_lines_scalar scalar_ascii)
  have c: "is_complete (stdout no_key_env)"
    by (simp add: no_key_env_def demo_env_def utf8_strict_def)
  have "\<forall>f\<in>set (key_findings (ctx ?sL)). printable no_key_env f"
    using printable_scalar[OF c] by (simp add: no_key_final_def scalar_ascii)
  moreover have "printable no_key_env (query (ctx ?sL))"
    using printable_scalar[OF c] by (simp add: no_key_final_def scalar_ascii)
  ultimately have syn: "fst (synthesize_and_return no_key_env ?sL)
      = Inr \<lparr>final_report = str_of ''report'', research_context = no_key_final,
              iterations = 1\<rparr>"
    using synthesize_and_return_printed[OF c, of ?sL]
    by (simp add: no_key_simps) (simp add: no_key_final_def)
  show ?thesis
    unfolding run_deep_research_agent_def b no_key_loop
    by (simp add: syn no_key_simps)
qed

theorem credentials_not_checked_up_front_witness:
  "exa_api_key no_key_env = None
   \<and> fst (exa_search_and_contents no_key_env None (str_of ''q1'') 2 True ()) = Inl auth_error
   \<and> py_print no_key_env (line_78 auth_error) = None
   \<and> fst (get_search_results no_key_env (str_of ''q1'') 2 True ()) = Inr []
   \<and> search_history (ctx (snd (run_deep_research_agent no_key_env (str_of ''q'') 1 ()))) = []
   \<and> (0::int) < 1
   \<and> py_print no_key_env (line_269 (str_of ''q'')) = None
   \<and> hd (trace (snd (run_deep_research_agent no_key_env (str_of ''q'') 1 ())))
       = PlanCall ((new_context (str_of ''q''))\<lparr>search_iterations := 1\<rparr>)"
proof -
  have key: "exa_api_key no_key_env = None"
    by (simp add: no_key_env_def)
  have rej: "\<forall>q n a w. \<exists>e. fst (exa_search_and_contents no_key_env None q n a w) = Inl e"
    by (simp add: no_key_env_def demo_env_def)
  have au: "fst (exa_search_and_contents no_key_env None (str_of ''q1'') 2 True ()) = Inl auth_error"
    by (simp add: no_key_env_def demo_env_def)
  have p78: "py_print no_key_env (line_78 auth_error) = None"
    by (simp add: no_key_print variable_lines_scalar auth_error_scalar)
  have b: "py_print no_key_env (line_269 (str_of ''q'')) = None"
    by (simp add: no_key_print variable_lines_scalar scalar_ascii)
  have pos: "(0::int) < 1" by simp
  note inst = credentials_not_checked_up_front[of 1 no_key_env "str_of ''q''" "()"]
  from inst key rej au
  have gs: "fst (get_search_results no_key_env (str_of ''q1'') 2 True ())
          = (if py_print no_key_env (line_78 auth_error) = None then Inr [] else Inl encode_error)"
    and hist: "search_history (ctx (snd (run_deep_research_agent no_key_env (str_of ''q'') 1 ()))) = []"
    by blast+
  from inst pos b obtain tr
    where "trace (snd (run_deep_research_agent no_key_env (str_of ''q'') 1 ()))
             = PlanCall ((new_context (str_of ''q''))\<lparr>search_iterations := 1\<rparr>) # tr"
    by blast
  with key au p78 gs hist b show ?thesis by simp
qed

end
